theory Spec2Isabelle
  imports Complex_Main
begin

section \<open>Python values used by the funding-rate tracker\<close>

subsection \<open>Exceptions as values\<close>

text \<open>
  Every handler of \<^verbatim>\<open>hype_funding_tracker.py\<close> is \<^verbatim>\<open>except Exception\<close> or a bare
  \<^verbatim>\<open>except\<close>, so the identity of an exception is never inspected; the constructors only
  record where it came from.
\<close>

datatype exn =
  KeyError | TypeError | ValueError | ZeroDivisionError | RequestException | AttributeError

definition bindE :: "exn + 'a \<Rightarrow> ('a \<Rightarrow> exn + 'b) \<Rightarrow> exn + 'b" where
  "bindE r f = (case r of Inl e \<Rightarrow> Inl e | Inr x \<Rightarrow> f x)"

text \<open>Evaluating \<open>f\<close> on the elements from left to right, stopping at the first raise.\<close>

fun traverse :: "('a \<Rightarrow> exn + 'b) \<Rightarrow> 'a list \<Rightarrow> exn + 'b list" where
  "traverse f [] = Inr []"
| "traverse f (x # xs) = bindE (f x) (\<lambda>y. bindE (traverse f xs) (\<lambda>ys. Inr (y # ys)))"

subsection \<open>Floats\<close>

text \<open>
  A Python \<^verbatim>\<open>float\<close> is an IEEE 754 binary64 value. \<open>Fin q\<close> is the finite double of
  value \<open>q\<close> (the two zeros are identified: the tracker never divides by a rate nor prints
  a sign of zero). Arithmetic is exact arithmetic followed by \<open>rnd\<close>, rounding to the
  nearest double, ties to the even significand, with 53 significant bits, least exponent
  \<open>-1074\<close> and overflow to infinity from \<open>2 ^ 1024\<close> on.
\<close>

datatype pyfloat = Fin rat | PInf | NInf | NaN

function ilog2 :: "int \<Rightarrow> int" where
  "ilog2 n = (if n < 2 then 0 else 1 + ilog2 (n div 2))"
  by pat_completeness auto
termination
  by (relation "measure nat") auto

declare ilog2.simps [simp del]

definition floor_log2 :: "rat \<Rightarrow> int" where
  "floor_log2 q = (if 1 \<le> q then ilog2 \<lfloor>q\<rfloor> else - 1 - ilog2 (\<lceil>1 / q\<rceil> - 1))"

definition round_half_even :: "rat \<Rightarrow> int" where
  "round_half_even q =
     (let f = \<lfloor>q\<rfloor>; r = q - of_int f
      in if r < 1 / 2 then f else if 1 / 2 < r then f + 1 else if even f then f else f + 1)"

definition rnd :: "rat \<Rightarrow> pyfloat" where
  "rnd q =
     (if q = 0 then Fin 0
      else let e = max (floor_log2 \<bar>q\<bar> - 52) (- 1074);
               m = round_half_even (q / 2 powi e);
               v = of_int m * 2 powi e
           in if 2 ^ 1024 \<le> \<bar>v\<bar> then (if 0 < q then PInf else NInf) else Fin v)"

fun fadd :: "pyfloat \<Rightarrow> pyfloat \<Rightarrow> pyfloat" where
  "fadd (Fin a) (Fin b) = rnd (a + b)"
| "fadd NaN y = NaN"
| "fadd x NaN = NaN"
| "fadd PInf NInf = NaN"
| "fadd NInf PInf = NaN"
| "fadd PInf y = PInf"
| "fadd NInf y = NInf"
| "fadd (Fin a) y = y"

fun fneg :: "pyfloat \<Rightarrow> pyfloat" where
  "fneg (Fin a) = Fin (- a)"
| "fneg PInf = NInf"
| "fneg NInf = PInf"
| "fneg NaN = NaN"

definition fsub :: "pyfloat \<Rightarrow> pyfloat \<Rightarrow> pyfloat" where
  "fsub x y = fadd x (fneg y)"

fun fabs :: "pyfloat \<Rightarrow> pyfloat" where
  "fabs (Fin a) = Fin \<bar>a\<bar>"
| "fabs PInf = PInf"
| "fabs NInf = PInf"
| "fabs NaN = NaN"

text \<open>Comparisons: every comparison with \<open>NaN\<close> is false.\<close>

fun flt :: "pyfloat \<Rightarrow> pyfloat \<Rightarrow> bool" where
  "flt (Fin a) (Fin b) = (a < b)"
| "flt NaN y = False"
| "flt x NaN = False"
| "flt x NInf = False"
| "flt PInf y = False"
| "flt NInf y = True"
| "flt (Fin a) PInf = True"

definition fle :: "pyfloat \<Rightarrow> pyfloat \<Rightarrow> bool" where
  "fle x y = (x \<noteq> NaN \<and> y \<noteq> NaN \<and> \<not> flt y x)"

fun is_finite :: "pyfloat \<Rightarrow> bool" where
  "is_finite (Fin a) = True"
| "is_finite x = False"

text \<open>
  \<open>fdiv\<close> is the IEEE quotient for a divisor other than zero; \<open>truediv\<close> is Python's
  \<^verbatim>\<open>/\<close>, which raises on a zero divisor.
\<close>

fun fdiv :: "pyfloat \<Rightarrow> pyfloat \<Rightarrow> pyfloat" where
  "fdiv (Fin a) (Fin b) = rnd (a / b)"
| "fdiv NaN y = NaN"
| "fdiv x NaN = NaN"
| "fdiv (Fin a) y = Fin 0"
| "fdiv x (Fin b) = (if (x = PInf) = (0 < b) then PInf else NInf)"
| "fdiv x y = NaN"

definition truediv :: "pyfloat \<Rightarrow> pyfloat \<Rightarrow> exn + pyfloat" where
  "truediv x y = (if y = Fin 0 then Inl ZeroDivisionError else Inr (fdiv x y))"

text \<open>
  The conversion of an \<^verbatim>\<open>int\<close> operand of \<^verbatim>\<open>/\<close> to a double. It is only applied to
  \<^verbatim>\<open>len(rates)\<close>, which is below \<open>2 ^ 63\<close>, far from the numbers whose conversion
  overflows.
\<close>

definition float_of_nat :: "nat \<Rightarrow> pyfloat" where
  "float_of_nat n = rnd (of_nat n)"

text \<open>
  The built-in \<^verbatim>\<open>sum\<close> starts from the \<^verbatim>\<open>int\<close> 0. CPython up to 3.11 then adds the
  floats from left to right; CPython from 3.12 on keeps the running total together with a
  Neumaier compensation term, added once at the end when it is finite and not zero. The
  repository does not fix the interpreter, so the variant is a parameter of the model.
\<close>

datatype sum_impl = Sequential | Compensated

fun neumaier_step :: "pyfloat \<times> pyfloat \<Rightarrow> pyfloat \<Rightarrow> pyfloat \<times> pyfloat" where
  "neumaier_step (f, c) x =
     (let t = fadd f x
      in (t, fadd c (if fle (fabs x) (fabs f) then fadd (fsub f t) x else fadd (fsub x t) f)))"

fun py_sum :: "sum_impl \<Rightarrow> pyfloat list \<Rightarrow> pyfloat" where
  "py_sum Sequential xs = foldl fadd (Fin 0) xs"
| "py_sum Compensated [] = Fin 0"
| "py_sum Compensated (x # xs) =
     (case foldl neumaier_step (fadd (Fin 0) x, Fin 0) xs of
        (f, c) \<Rightarrow> if c \<noteq> Fin 0 \<and> is_finite c then fadd f c else f)"

text \<open>
  \<^verbatim>\<open>max\<close> and \<^verbatim>\<open>min\<close> keep the first element and replace it by a later one that
  compares strictly greater (smaller); on an empty sequence they raise.
\<close>

fun py_max_from :: "pyfloat \<Rightarrow> pyfloat list \<Rightarrow> pyfloat" where
  "py_max_from m [] = m"
| "py_max_from m (x # xs) = py_max_from (if flt m x then x else m) xs"

fun py_min_from :: "pyfloat \<Rightarrow> pyfloat list \<Rightarrow> pyfloat" where
  "py_min_from m [] = m"
| "py_min_from m (x # xs) = py_min_from (if flt x m then x else m) xs"

fun py_max :: "pyfloat list \<Rightarrow> exn + pyfloat" where
  "py_max [] = Inl ValueError"
| "py_max (x # xs) = Inr (py_max_from x xs)"

fun py_min :: "pyfloat list \<Rightarrow> exn + pyfloat" where
  "py_min [] = Inl ValueError"
| "py_min (x # xs) = Inr (py_min_from x xs)"

section \<open>Data model\<close>

text \<open>
  One element of a \<^verbatim>\<open>fundingHistory\<close> page, as the tracker sees it. \<open>time\<close> is
  \<open>None\<close> when \<^verbatim>\<open>d['time']\<close> raises or is not a number (the element is no dictionary,
  has no such key, or holds a string there), \<open>fundingRate\<close> is \<open>None\<close> when
  \<^verbatim>\<open>float(d['fundingRate'])\<close> raises; otherwise they hold the timestamp in milliseconds
  and the converted rate.
\<close>

record item =
  time :: "int option"
  fundingRate :: "pyfloat option"

text \<open>A well-formed observation, and the element it arrives as.\<close>

record obs =
  obs_time :: int
  obs_rate :: pyfloat

definition item_of :: "obs \<Rightarrow> item" where
  "item_of ob = \<lparr>time = Some (obs_time ob), fundingRate = Some (obs_rate ob)\<rparr>"

definition key_time :: "item \<Rightarrow> exn + int" where
  "key_time d = (case time d of None \<Rightarrow> Inl KeyError | Some t \<Rightarrow> Inr t)"

definition float_rate :: "item \<Rightarrow> exn + pyfloat" where
  "float_rate d = (case fundingRate d of None \<Rightarrow> Inl ValueError | Some r \<Rightarrow> Inr r)"

record stats =
  rate8h :: pyfloat
  sum1d :: pyfloat
  sum3d :: pyfloat
  sum7d :: pyfloat
  sum30d :: pyfloat
  avg :: pyfloat
  max' :: pyfloat
  min' :: pyfloat
  count :: nat



record coin_record =
  history :: "item list"
  stats :: "stats option"


section \<open>The environment: network, clock, interpreter\<close>

record request =
  coin :: string
  startTime :: int
  endTime :: "int option"

text \<open>
  What \<^verbatim>\<open>response.json()\<close> gives for a \<^verbatim>\<open>fundingHistory\<close> request: it raises
  (\<open>Invalid\<close>), it is no list (\<open>NotList\<close>), or it is a list of elements.
\<close>

datatype body = Invalid | NotList | Items "item list"

text \<open>\<^verbatim>\<open>requests.post\<close> raises (\<open>Failed\<close>) or returns a status code and a body.\<close>

datatype response = Failed | Http nat body

text \<open>
  The value of \<^verbatim>\<open>asset['name']\<close> is whatever the upstream sent, and the tracker never
  checks it: a string, another value that can be a dictionary key (a number, a boolean,
  \<^verbatim>\<open>null\<close>; the argument tells such keys apart), or a value that cannot (a list, an
  object).
\<close>

datatype pyname = Str string | Atom nat | Unhashable nat


text \<open>
  The \<^verbatim>\<open>metaAndAssetCtxs\<close> answer. A context field read by
  \<^verbatim>\<open>float(ctx.get(k, 0))\<close> is absent, convertible, or makes \<^verbatim>\<open>float\<close> raise; a context
  that is no dictionary makes \<^verbatim>\<open>ctx.get\<close> raise; an asset whose \<^verbatim>\<open>asset['name']\<close> raises
  has the name \<open>None\<close>. \<open>Pair u c\<close> is a list of at least two elements, \<open>u\<close> being
  \<^verbatim>\<open>data[0]['universe']\<close> and \<open>c\<close> being \<^verbatim>\<open>data[1]\<close>, each \<open>None\<close> when it raises or
  cannot be iterated.
\<close>

datatype field = Absent | Good pyfloat | Bad

datatype ctx = NotDict | Ctx field field field field

datatype catalog_body = CInvalid | CShort | Pair "pyname option list option" "ctx list option"

datatype catalog_response = CFailed | CHttp nat catalog_body

text \<open>
  The effects of a run, in order: a history request, a catalog request for a namespace, a
  \<^verbatim>\<open>time.sleep\<close> of so many seconds, a reading of \<^verbatim>\<open>datetime.now()\<close>.
\<close>

datatype event = Post request | PostMeta "string option" | Sleep rat | Now

type_synonym world = "event list"

fun n_posts :: "world \<Rightarrow> nat" where
  "n_posts [] = 0"
| "n_posts (Post r # w) = Suc (n_posts w)"
| "n_posts (e # w) = n_posts w"

fun n_reads :: "world \<Rightarrow> nat" where
  "n_reads [] = 0"
| "n_reads (Now # w) = Suc (n_reads w)"
| "n_reads (e # w) = n_reads w"

fun posts_of :: "world \<Rightarrow> request list" where
  "posts_of [] = []"
| "posts_of (Post r # w) = r # posts_of w"
| "posts_of (e # w) = posts_of w"

fun sleeps_of :: "world \<Rightarrow> rat list" where
  "sleeps_of [] = []"
| "sleeps_of (Sleep d # w) = d # sleeps_of w"
| "sleeps_of (e # w) = sleeps_of w"

text \<open>
  The environment answers the \<open>k\<close>-th history request of the run, answers the catalog
  request of a namespace, gives the value of \<^verbatim>\<open>datetime.now().timestamp() * 1000\<close> at the
  \<open>k\<close>-th reading, and fixes the variant of \<^verbatim>\<open>sum\<close>. \<^verbatim>\<open>datetime.now()\<close> is a local date
  and time without a zone, and \<^verbatim>\<open>timestamp()\<close> converts it by the rules of the local time
  zone: \<open>days_before env t\<close> is the value of
  \<^verbatim>\<open>(dt - timedelta(days=30)).timestamp() * 1000\<close> for the reading \<^verbatim>\<open>dt\<close> whose
  \<^verbatim>\<open>dt.timestamp() * 1000\<close> is \<open>t\<close>. It is \<open>t - 2592000000\<close> where the offset of the
  zone is the same at both ends, and an hour more or less across a change of it.
\<close>

record env =
  net :: "nat \<Rightarrow> request \<Rightarrow> response"
  catalog :: "string option \<Rightarrow> catalog_response"
  clock :: "nat \<Rightarrow> rat"
  days_before :: "rat \<Rightarrow> rat"
  sum_impl :: sum_impl

definition post :: "env \<Rightarrow> request \<Rightarrow> world \<Rightarrow> response \<times> world" where
  "post env req w = (net env (n_posts w) req, w @ [Post req])"


definition sleep :: "rat \<Rightarrow> world \<Rightarrow> world" where
  "sleep d w = w @ [Sleep d]"

definition read_clock :: "env \<Rightarrow> world \<Rightarrow> rat \<times> world" where
  "read_clock env w = (clock env (n_reads w), w @ [Now])"

section \<open>The tracker\<close>

subsection \<open>\<^verbatim>\<open>fetch_funding_history\<close>\<close>

definition max_iterations :: nat where
  "max_iterations = 20"

definition max_retries :: nat where
  "max_retries = 3"

text \<open>
  The payload of a page request; \<^verbatim>\<open>if end_time:\<close> leaves \<^verbatim>\<open>endTime\<close> out for
  \<^verbatim>\<open>None\<close> and for 0.
\<close>

definition payload :: "string \<Rightarrow> int \<Rightarrow> int option \<Rightarrow> request" where
  "payload c current_start end_time =
     \<lparr>coin = c, startTime = current_start,
      endTime = (case end_time of None \<Rightarrow> None | Some e \<Rightarrow> if e = 0 then None else Some e)\<rparr>"

text \<open>\<^verbatim>\<open>max(d['time'] for d in data)\<close>.\<close>

definition max_time :: "item list \<Rightarrow> exn + int" where
  "max_time data =
     bindE (traverse key_time data)
       (\<lambda>ts. case ts of [] \<Rightarrow> Inl ValueError | t # ts' \<Rightarrow> Inr (fold max ts' t))"

text \<open>
  One pass through the body of the \<^verbatim>\<open>try\<close> (lines 106 to 128), given the answer of
  \<^verbatim>\<open>requests.post\<close>: the attempt was rate limited (\<^verbatim>\<open>continue\<close>), the function returns
  \<^verbatim>\<open>all_data\<close>, the page loop goes on from a new cursor (\<^verbatim>\<open>break\<close>), or an exception
  reaches the handler. \<^verbatim>\<open>all_data.extend(data)\<close> comes before the cursor is computed, so
  an exception can leave \<^verbatim>\<open>all_data\<close> extended.
\<close>

datatype attempt =
  RateLimited
  | Return "item list"
  | Break "item list" int
  | Raised "item list"

definition try_page :: "response \<Rightarrow> item list \<Rightarrow> attempt" where
  "try_page resp all_data =
     (case resp of
        Failed \<Rightarrow> Raised all_data
      | Http status_code b \<Rightarrow>
          if status_code = 429 then RateLimited
          else if status_code \<noteq> 200 then Return all_data
          else (case b of
                  Invalid \<Rightarrow> Raised all_data
                | NotList \<Rightarrow> Return all_data
                | Items data \<Rightarrow>
                    if data = [] then Return all_data
                    else let all_data' = all_data @ data
                         in if length data < 500 then Return all_data'
                            else (case max_time data of
                                    Inl e \<Rightarrow> Raised all_data'
                                  | Inr last_time \<Rightarrow> Break all_data' (last_time + 1))))"

text \<open>How the retry loop of one page ends.\<close>

datatype flow = Returned "item list" | Next "item list" int

text \<open>
  \<^verbatim>\<open>for retry in range(max_retries)\<close> with its \<^verbatim>\<open>else\<close> clause: the empty list of
  remaining retries is the exhausted loop.
\<close>

fun retry_loop :: "env \<Rightarrow> request \<Rightarrow> nat list \<Rightarrow> item list \<Rightarrow> world \<Rightarrow> flow \<times> world" where
  "retry_loop env req [] all_data w = (Returned all_data, w)"
| "retry_loop env req (retry # rest) all_data w =
     (case post env req w of
        (resp, w1) \<Rightarrow>
          (case try_page resp all_data of
             RateLimited \<Rightarrow> retry_loop env req rest all_data (sleep (of_nat ((retry + 1) * 2)) w1)
           | Return xs \<Rightarrow> (Returned xs, w1)
           | Break xs c \<Rightarrow> (Next xs c, w1)
           | Raised xs \<Rightarrow>
               if retry = max_retries - 1 then (Returned xs, w1)
               else retry_loop env req rest xs (sleep 1 w1)))"

text \<open>\<^verbatim>\<open>for iteration in range(max_iterations)\<close>.\<close>

fun page_loop ::
  "env \<Rightarrow> string \<Rightarrow> int option \<Rightarrow> nat list \<Rightarrow> int \<Rightarrow> item list \<Rightarrow> world \<Rightarrow> item list \<times> world" where
  "page_loop env c end_time [] current_start all_data w = (all_data, w)"
| "page_loop env c end_time (iteration # rest) current_start all_data w =
     (case retry_loop env (payload c current_start end_time) [0..<max_retries] all_data w of
        (Returned xs, w') \<Rightarrow> (xs, w')
      | (Next xs current_start', w') \<Rightarrow> page_loop env c end_time rest current_start' xs w')"

definition fetch_funding_history ::
  "env \<Rightarrow> string \<Rightarrow> int \<Rightarrow> int option \<Rightarrow> world \<Rightarrow> item list \<times> world" where
  "fetch_funding_history env c start_time end_time w =
     page_loop env c end_time [0..<max_iterations] start_time [] w"

subsection \<open>\<^verbatim>\<open>calculate_stats\<close>\<close>

text \<open>
  \<^verbatim>\<open>sorted(data, key=lambda x: x['time'], reverse=True)\<close>: the keys are computed first,
  each element once and in order; the sort is stable, also with \<^verbatim>\<open>reverse=True\<close>; the
  result is a new list.
\<close>

definition py_sorted_desc :: "item list \<Rightarrow> exn + item list" where
  "py_sorted_desc data =
     bindE (traverse key_time data)
       (\<lambda>keys. Inr (map snd (sort_key (\<lambda>p. - fst p) (zip keys data))))"

text \<open>
  The generator of \<^verbatim>\<open>sum_hours\<close>: for each element the timestamp is compared with the
  cutoff, and only then is the rate converted.
\<close>

fun window_rates :: "rat \<Rightarrow> item list \<Rightarrow> exn + pyfloat list" where
  "window_rates cutoff [] = Inr []"
| "window_rates cutoff (d # ds) =
     bindE (key_time d)
       (\<lambda>t. if cutoff \<le> of_int t
            then bindE (float_rate d) (\<lambda>r. bindE (window_rates cutoff ds) (\<lambda>rs. Inr (r # rs)))
            else window_rates cutoff ds)"

text \<open>
  \<open>now\<close> is a double between \<open>hours * 3600000\<close> and \<open>2 ^ 53\<close> for every clock reading
  later than January 1970; there the subtraction of the integer is exact in binary64, and
  Python compares an \<^verbatim>\<open>int\<close> with a \<^verbatim>\<open>float\<close> by value. The cutoff is therefore the
  exact difference.
\<close>

definition sum_hours :: "sum_impl \<Rightarrow> rat \<Rightarrow> item list \<Rightarrow> int \<Rightarrow> exn + pyfloat" where
  "sum_hours impl now sorted_data hours =
     (let cutoff = now - of_int (hours * 60 * 60 * 1000)
      in bindE (window_rates cutoff sorted_data) (\<lambda>rs. Inr (py_sum impl rs)))"

text \<open>
  The result is the value returned or the exception raised, the contents of the caller's
  list \<^verbatim>\<open>data\<close> when the call ends, and the effects. \<^verbatim>\<open>sorted\<close> and the list
  comprehension build new lists, so \<^verbatim>\<open>data\<close> is handed back as it came.
\<close>

definition calculate_stats :: "env \<Rightarrow> item list \<Rightarrow> world \<Rightarrow> (exn + stats option) \<times> item list \<times> world" where
  "calculate_stats env data w =
     (if data = [] then (Inr None, data, w)
      else case read_clock env w of
        (now, w1) \<Rightarrow>
          (bindE (py_sorted_desc data) (\<lambda>sorted_data.
           bindE (traverse float_rate data) (\<lambda>rates.
           bindE (case sorted_data of [] \<Rightarrow> Inr (Fin 0) | d # ds \<Rightarrow> float_rate d) (\<lambda>r8.
           bindE (sum_hours (sum_impl env) now sorted_data 24) (\<lambda>s1.
           bindE (sum_hours (sum_impl env) now sorted_data 72) (\<lambda>s3.
           bindE (sum_hours (sum_impl env) now sorted_data 168) (\<lambda>s7.
           bindE (sum_hours (sum_impl env) now sorted_data 720) (\<lambda>s30.
           bindE (if rates \<noteq> []
                  then truediv (py_sum (sum_impl env) rates) (float_of_nat (length rates))
                  else Inr (Fin 0)) (\<lambda>a.
           bindE (if rates \<noteq> [] then py_max rates else Inr (Fin 0)) (\<lambda>mx.
           bindE (if rates \<noteq> [] then py_min rates else Inr (Fin 0)) (\<lambda>mn.
           Inr (Some \<lparr>rate8h = r8, sum1d = s1, sum3d = s3, sum7d = s7, sum30d = s30,
                      avg = a, max' = mx, min' = mn, count = length data\<rparr>))))))))))),
           data, w1))"

subsection \<open>\<^verbatim>\<open>fetch_coin_data\<close>\<close>

text \<open>
  The bare \<^verbatim>\<open>except\<close> turns every exception of the body into the empty record.
  \<^verbatim>\<open>history\<close> in the returned dictionary is the list object that was passed to
  \<^verbatim>\<open>calculate_stats\<close>.
\<close>

definition fetch_coin_data ::
  "env \<Rightarrow> string \<Rightarrow> int \<Rightarrow> int \<Rightarrow> world \<Rightarrow> (string \<times> coin_record) \<times> world" where
  "fetch_coin_data env c start_time end_time w =
     (case fetch_funding_history env c start_time (Some end_time) w of
        (hist, w1) \<Rightarrow>
          if hist \<noteq> [] then
            (case calculate_stats env hist w1 of
               (Inr st, hist', w2) \<Rightarrow> ((c, \<lparr>history = hist', stats = st\<rparr>), w2)
             | (Inl e, hist', w2) \<Rightarrow> ((c, \<lparr>history = [], stats = None\<rparr>), w2))
          else ((c, \<lparr>history = [], stats = None\<rparr>), w1))"

subsection \<open>\<^verbatim>\<open>get_all_perp_assets\<close>\<close>






subsection \<open>\<^verbatim>\<open>main\<close>\<close>







section \<open>Notions used in the statements\<close>

text \<open>
  A history of well-formed observations in descending order of time, as a stable sort
  leaves it; the test of a trailing window; the sum of a window.
\<close>

definition desc_by_time :: "obs list \<Rightarrow> obs list" where
  "desc_by_time hist = sort_key (\<lambda>ob. - obs_time ob) hist"

definition in_window :: "rat \<Rightarrow> int \<Rightarrow> obs \<Rightarrow> bool" where
  "in_window now hours ob = (now - of_int (hours * 60 * 60 * 1000) \<le> of_int (obs_time ob))"

definition window_sum :: "sum_impl \<Rightarrow> rat \<Rightarrow> obs list \<Rightarrow> int \<Rightarrow> pyfloat" where
  "window_sum impl now hist hours =
     py_sum impl (map obs_rate (desc_by_time (filter (in_window now hours) hist)))"

text \<open>
  A page that makes \<^verbatim>\<open>fetch_funding_history\<close> go on to the next one: at least 500
  elements, each with a timestamp. An upstream that serves the pages \<open>ps\<close>, one per
  request, from the \<open>n\<close>-th request of the run on, whatever is asked.
\<close>

definition full_page :: "item list \<Rightarrow> bool" where
  "full_page p = (500 \<le> length p \<and> (\<forall>d\<in>set p. time d \<noteq> None))"

definition serves :: "env \<Rightarrow> nat \<Rightarrow> item list list \<Rightarrow> bool" where
  "serves env n ps = (\<forall>i<length ps. \<forall>req. net env (n + i) req = Http 200 (Items (ps ! i)))"






section \<open>Concrete inputs\<close>

text \<open>
  The double nearest to 0.1, and the doubles met when three of them are added and the sum
  is divided by 3: 0.2, 0.30000000000000004 and 0.10000000000000002; the intermediate
  values of the compensated sum.
\<close>

definition tenth :: pyfloat where
  "tenth = Fin (3602879701896397 / 2 ^ 55)"

definition fifth :: pyfloat where
  "fifth = Fin (3602879701896397 / 2 ^ 54)"

definition three_tenths_up :: pyfloat where
  "three_tenths_up = Fin (5404319552844596 / 2 ^ 54)"

definition tenth_up :: pyfloat where
  "tenth_up = Fin (7205759403792795 / 2 ^ 56)"

definition neg_tenth :: pyfloat where
  "neg_tenth = Fin (- (3602879701896397 / 2 ^ 55))"

definition lost :: pyfloat where
  "lost = Fin (- (1801439850948199 / 2 ^ 54))"

definition half_ulp :: pyfloat where
  "half_ulp = Fin (- (1 / 2 ^ 55))"

text \<open>
  Three observations of rate 0.1 at the times 0, 1 and 2; an environment whose network
  always fails and whose clock reads 1000 ms; the stats the tracker computes there.
\<close>

definition flat_history :: "obs list" where
  "flat_history =
     [\<lparr>obs_time = 0, obs_rate = tenth\<rparr>, \<lparr>obs_time = 1, obs_rate = tenth\<rparr>,
      \<lparr>obs_time = 2, obs_rate = tenth\<rparr>]"

definition offline_env :: "sum_impl \<Rightarrow> env" where
  "offline_env impl =
     \<lparr>net = (\<lambda>k r. Failed), catalog = (\<lambda>dex. CFailed), clock = (\<lambda>k. 1000),
      days_before = (\<lambda>t. t - 2592000000), sum_impl = impl\<rparr>"

definition flat_stats :: stats where
  "flat_stats =
     \<lparr>rate8h = tenth, sum1d = three_tenths_up, sum3d = three_tenths_up, sum7d = three_tenths_up,
      sum30d = three_tenths_up, avg = tenth_up, max' = tenth, min' = tenth, count = 3\<rparr>"

text \<open>
  A page of 500 observations; an upstream that serves it \<open>n\<close> times and then keeps
  giving one answer; a catalog of two symbols, with an upstream that fails for the first
  and answers the three observations for the second; an upstream whose only observation
  has a rate that cannot be converted; a catalog whose second asset has no name.
\<close>

definition sample_item :: item where
  "sample_item = \<lparr>time = Some 0, fundingRate = Some (Fin 0)\<rparr>"

definition sample_page :: "item list" where
  "sample_page = replicate 500 sample_item"

definition scripted_env :: "nat \<Rightarrow> response \<Rightarrow> env" where
  "scripted_env n after =
     \<lparr>net = (\<lambda>k r. if k < n then Http 200 (Items sample_page) else after),
      catalog = (\<lambda>dex. CFailed), clock = (\<lambda>k. 1000),
      days_before = (\<lambda>t. t - 2592000000), sum_impl = Sequential\<rparr>"

definition listing_env :: env where
  "listing_env =
     \<lparr>net = (\<lambda>k r. if coin r = ''xyz:TSLA'' then Http 200 (Items (map item_of flat_history))
                   else Failed),
      catalog = (\<lambda>dex. CHttp 200 (Pair (Some [Some (Str ''xyz:GOLD''), Some (Str ''xyz:TSLA'')])
                   (Some [Ctx Absent Absent Absent Absent, Ctx Absent Absent Absent Absent]))),
      clock = (\<lambda>k. 1000),
      days_before = (\<lambda>t. t - 2592000000), sum_impl = Sequential\<rparr>"

definition bad_rate_env :: env where
  "bad_rate_env =
     \<lparr>net = (\<lambda>k r. Http 200 (Items [\<lparr>time = Some 5, fundingRate = None\<rparr>])),
      catalog = (\<lambda>dex. CFailed), clock = (\<lambda>k. 1000),
      days_before = (\<lambda>t. t - 2592000000), sum_impl = Sequential\<rparr>"

definition partial_env :: env where
  "partial_env =
     \<lparr>net = (\<lambda>k r. Failed),
      catalog = (\<lambda>dex. CHttp 200 (Pair (Some [Some (Str ''BTC''), None])
                   (Some [Ctx Absent Absent Absent Absent, Ctx Absent Absent Absent Absent]))),
      clock = (\<lambda>k. 1000),
      days_before = (\<lambda>t. t - 2592000000), sum_impl = Sequential\<rparr>"



section \<open>Basic facts\<close>

lemma bindE_Inr [simp]: "bindE (Inr x) f = f x"
  by (simp add: bindE_def)

lemma bindE_Inl [simp]: "bindE (Inl e) f = Inl e"
  by (simp add: bindE_def)

lemma bindE_eq_Inr: "bindE r f = Inr y \<longleftrightarrow> (\<exists>x. r = Inr x \<and> f x = Inr y)"
  by (cases r) simp_all

lemma n_posts_append [simp]: "n_posts (w @ w') = n_posts w + n_posts w'"
  by (induction w rule: n_posts.induct) simp_all

lemma posts_of_append [simp]: "posts_of (w @ w') = posts_of w @ posts_of w'"
  by (induction w rule: posts_of.induct) simp_all

lemma sleeps_of_append [simp]: "sleeps_of (w @ w') = sleeps_of w @ sleeps_of w'"
  by (induction w rule: sleeps_of.induct) simp_all

lemma posts_of_map_Post [simp]: "posts_of (map Post reqs) = reqs"
  by (induction reqs) simp_all

lemma n_posts_map_Post [simp]: "n_posts (map Post reqs) = length reqs"
  by (induction reqs) simp_all

section \<open>Rounding to a double\<close>

text \<open>
  \<open>floor_log2\<close> is the binary exponent of a positive rational, so \<open>rnd\<close> keeps 53
  significant bits; \<open>rnd_near\<close> and \<open>rnd_tie\<close> evaluate it at a given number.
\<close>

lemma ilog2_bounds:
  "1 \<le> n \<Longrightarrow> 0 \<le> ilog2 n \<and> 2 ^ nat (ilog2 n) \<le> n \<and> n < 2 * 2 ^ nat (ilog2 n)"
proof (induction n rule: ilog2.induct)
  case (1 n)
  show ?case
  proof (cases "n < 2")
    case True
    with "1.prems" have "n = 1" by simp
    then show ?thesis by (simp add: ilog2.simps)
  next
    case False
    then have h: "1 \<le> n div 2" by simp
    from "1.IH" [OF False h]
    have ih: "0 \<le> ilog2 (n div 2)" "2 ^ nat (ilog2 (n div 2)) \<le> n div 2"
      "n div 2 < 2 * 2 ^ nat (ilog2 (n div 2))" by simp_all
    have eq: "ilog2 n = 1 + ilog2 (n div 2)" using False by (subst ilog2.simps) simp
    have nat_eq: "nat (1 + ilog2 (n div 2)) = Suc (nat (ilog2 (n div 2)))" using ih(1) by simp
    show ?thesis unfolding eq nat_eq using ih by simp linarith
  qed
qed

lemma ilog2_powi:
  assumes "1 \<le> n"
  shows "(2::rat) powi ilog2 n \<le> of_int n" "of_int n < (2::rat) powi (ilog2 n + 1)"
proof -
  from ilog2_bounds [OF assms]
  have b: "0 \<le> ilog2 n" "2 ^ nat (ilog2 n) \<le> n" "n < 2 * 2 ^ nat (ilog2 n)" by simp_all
  have "(of_int (2 ^ nat (ilog2 n)) :: rat) \<le> of_int n" using b(2) by (simp only: of_int_le_iff)
  then show "(2::rat) powi ilog2 n \<le> of_int n" using b(1) by (simp add: power_int_def)
  have "(of_int n :: rat) < of_int (2 * 2 ^ nat (ilog2 n))" using b(3) by (simp only: of_int_less_iff)
  then show "of_int n < (2::rat) powi (ilog2 n + 1)" using b(1)
    by (simp add: power_int_def nat_add_distrib)
qed

lemma powi_neg_ilog2:
  assumes "0 \<le> k"
  shows "(2::rat) powi (- 1 - k) = 1 / (2 * 2 ^ nat k)" "(2::rat) powi (- 1 - k + 1) = 1 / 2 ^ nat k"
proof -
  have n1: "nat (1 + k) = Suc (nat k)" using assms by simp
  show "(2::rat) powi (- 1 - k) = 1 / (2 * 2 ^ nat k)"
    using assms by (simp add: power_int_def n1 field_simps)
  show "(2::rat) powi (- 1 - k + 1) = 1 / 2 ^ nat k"
    using assms by (cases "k = 0") (simp_all add: power_int_def field_simps)
qed

lemma floor_log2_bounds:
  assumes "0 < q"
  shows "2 powi floor_log2 q \<le> q \<and> q < 2 powi (floor_log2 q + 1)"
proof (cases "1 \<le> q")
  case True
  then have "1 \<le> \<lfloor>q\<rfloor>" by simp
  from ilog2_powi [OF this]
  have "2 powi ilog2 \<lfloor>q\<rfloor> \<le> (of_int \<lfloor>q\<rfloor> :: rat)"
    "(of_int \<lfloor>q\<rfloor> :: rat) < 2 powi (ilog2 \<lfloor>q\<rfloor> + 1)" .
  moreover note of_int_floor_le [of q]
  moreover have "q < 2 powi (ilog2 \<lfloor>q\<rfloor> + 1)"
  proof -
    have "0 \<le> ilog2 \<lfloor>q\<rfloor> + 1" using ilog2_bounds [OF \<open>1 \<le> \<lfloor>q\<rfloor>\<close>] by simp
    then have "(2::rat) powi (ilog2 \<lfloor>q\<rfloor> + 1) = of_int (2 ^ nat (ilog2 \<lfloor>q\<rfloor> + 1))"
      by (simp add: power_int_def)
    moreover have "\<lfloor>q\<rfloor> < 2 ^ nat (ilog2 \<lfloor>q\<rfloor> + 1)"
      using ilog2_bounds [OF \<open>1 \<le> \<lfloor>q\<rfloor>\<close>] by (simp add: nat_add_distrib)
    ultimately show ?thesis by (simp only: floor_less_iff [symmetric])
  qed
  ultimately have "2 powi ilog2 \<lfloor>q\<rfloor> \<le> q \<and> q < 2 powi (ilog2 \<lfloor>q\<rfloor> + 1)" by linarith
  then show ?thesis using True by (simp add: floor_log2_def)
next
  case False
  define n where "n = \<lceil>1 / q\<rceil> - 1"
  define P :: int where "P = 2 ^ nat (ilog2 n)"
  from False assms have "1 < 1 / q" by (simp add: field_simps)
  then have n1: "1 \<le> n" unfolding n_def by (simp add: less_ceiling_iff)
  have le: "1 / q \<le> of_int n + 1" unfolding n_def by (simp add: le_of_int_ceiling)
  have lt: "of_int n < 1 / q" unfolding n_def using ceiling_correct [of "1 / q"] by simp
  from ilog2_bounds [OF n1] have k0: "0 \<le> ilog2 n" and P1: "P \<le> n" and P2: "n + 1 \<le> 2 * P"
    unfolding P_def by simp_all
  have Ppos: "0 < P" unfolding P_def by simp
  have "1 / q \<le> of_int (2 * P)" using le P2 by (metis of_int_1 of_int_add of_int_le_iff order_trans)
  then have a: "1 / (2 * of_int P) \<le> q" using assms Ppos by (simp add: field_simps)
  have "of_int P < 1 / q" using lt P1 by (metis of_int_le_iff order_le_less_trans)
  then have b: "q < 1 / of_int P" using assms Ppos by (simp add: field_simps)
  have fl: "floor_log2 q = - 1 - ilog2 n" using False by (simp add: floor_log2_def n_def)
  show ?thesis unfolding fl powi_neg_ilog2 [OF k0] using a b by (simp add: P_def)
qed

lemma powi2_mono: "a \<le> b \<Longrightarrow> (2::rat) powi a \<le> 2 powi b"
  by (rule power_int_increasing) simp_all

lemma floor_log2_unique:
  assumes "2 powi e \<le> q" and "q < 2 powi (e + 1)"
  shows "floor_log2 q = e"
proof -
  have "0 < (2::rat) powi e" by simp
  with assms(1) have q0: "0 < q" by linarith
  from floor_log2_bounds [OF q0]
  have f: "2 powi floor_log2 q \<le> q" "q < 2 powi (floor_log2 q + 1)" by simp_all
  have "\<not> floor_log2 q < e"
  proof
    assume "floor_log2 q < e"
    then have "floor_log2 q + 1 \<le> e" by simp
    from powi2_mono [OF this] f(2) assms(1) show False by linarith
  qed
  moreover have "\<not> e < floor_log2 q"
  proof
    assume "e < floor_log2 q"
    then have "e + 1 \<le> floor_log2 q" by simp
    from powi2_mono [OF this] f(1) assms(2) show False by linarith
  qed
  ultimately show ?thesis by simp
qed

lemma round_half_even_near:
  assumes "\<bar>x - of_int m\<bar> < 1 / 2"
  shows "round_half_even x = m"
proof -
  have b: "of_int m - 1 \<le> x" "x < of_int m + 1" using assms by linarith+
  have "m - 1 \<le> \<lfloor>x\<rfloor>" using b(1) by (simp add: le_floor_iff)
  moreover have "\<lfloor>x\<rfloor> < m + 1" using b(2) by (simp only: floor_less_iff of_int_add of_int_1)
  ultimately have fl: "\<lfloor>x\<rfloor> = m \<or> \<lfloor>x\<rfloor> = m - 1" by linarith
  show ?thesis using fl assms by (auto simp: round_half_even_def Let_def abs_less_iff)
qed

lemma round_half_even_tie:
  assumes "x = of_int m + 1 / 2"
  shows "round_half_even x = (if even m then m else m + 1)"
proof -
  have "\<lfloor>x\<rfloor> = m" unfolding assms by (simp add: floor_unique)
  then show ?thesis using assms by (simp add: round_half_even_def Let_def)
qed

lemma round_half_even_ge_floor: "\<lfloor>x\<rfloor> \<le> round_half_even x"
  by (simp add: round_half_even_def Let_def)

lemma rnd_normal:
  assumes "2 powi (e + 52) \<le> \<bar>q\<bar>" and "\<bar>q\<bar> < 2 powi (e + 53)" and "- 1074 \<le> e"
    and "round_half_even (q / 2 powi e) = m" and "\<bar>of_int m * 2 powi e\<bar> < (2 ^ 1024 :: rat)"
  shows "rnd q = Fin (of_int m * 2 powi e)"
proof -
  have "0 < (2::rat) powi (e + 52)" by simp
  with assms(1) have "0 < \<bar>q\<bar>" by linarith
  then have q0: "q \<noteq> 0" by simp
  have "floor_log2 \<bar>q\<bar> = e + 52" using assms(1,2) by (intro floor_log2_unique) (simp_all add: add.commute)
  then have "max (floor_log2 \<bar>q\<bar> - 52) (- 1074) = e" using assms(3) by simp
  then show ?thesis using q0 assms(4,5) by (simp add: rnd_def Let_def)
qed

lemma rnd_near:
  assumes "2 powi (e + 52) \<le> \<bar>q\<bar>" and "\<bar>q\<bar> < 2 powi (e + 53)" and "- 1074 \<le> e"
    and "\<bar>q / 2 powi e - of_int m\<bar> < 1 / 2" and "v = of_int m * 2 powi e"
    and "\<bar>v\<bar> < (2 ^ 1024 :: rat)"
  shows "rnd q = Fin v"
  using rnd_normal [OF assms(1,2,3) round_half_even_near [OF assms(4)]] assms(5,6) by simp

lemma rnd_tie:
  assumes "2 powi (e + 52) \<le> \<bar>q\<bar>" and "\<bar>q\<bar> < 2 powi (e + 53)" and "- 1074 \<le> e"
    and "q / 2 powi e = of_int m + 1 / 2" and "v = of_int (if even m then m else m + 1) * 2 powi e"
    and "\<bar>v\<bar> < (2 ^ 1024 :: rat)"
  shows "rnd q = Fin v"
  using rnd_normal [OF assms(1,2,3) round_half_even_tie [OF assms(4)]] assms(5,6) by simp

lemma rnd_zero [simp]: "rnd 0 = Fin 0"
  by (simp add: rnd_def)

lemma rnd_ge_one_nonzero:
  assumes "1 \<le> q"
  shows "rnd q \<noteq> Fin 0"
proof -
  have q0: "0 < q" "q \<noteq> 0" "\<bar>q\<bar> = q" using assms by simp_all
  define f where "f = floor_log2 q"
  from floor_log2_bounds [OF q0(1)] have fb: "2 powi f \<le> q" "q < 2 powi (f + 1)"
    unfolding f_def by simp_all
  have f0: "0 \<le> f"
  proof (rule ccontr)
    assume "\<not> 0 \<le> f"
    then have "f + 1 \<le> 0" by simp
    from powi2_mono [OF this] fb(2) assms show False by simp
  qed
  define e where "e = f - 52"
  have e: "max (floor_log2 \<bar>q\<bar> - 52) (- 1074) = e" using f0 by (simp add: e_def f_def q0)
  define m where "m = round_half_even (q / 2 powi e)"
  have "(2::rat) powi (e + 52) = 2 powi e * 2 powi 52" by (rule power_int_add) simp
  moreover have "f = e + 52" by (simp add: e_def)
  ultimately have "2 powi e * 2 powi 52 \<le> q" using fb(1) by simp
  moreover have "0 < (2::rat) powi e" by simp
  ultimately have "(2::rat) powi 52 \<le> q / 2 powi e" by (simp add: field_simps)
  moreover have "(1::rat) \<le> 2 powi 52" by simp
  ultimately have "(1::rat) \<le> q / 2 powi e" by (rule order_trans [rotated])
  then have "1 \<le> \<lfloor>q / 2 powi e\<rfloor>" by simp
  with round_half_even_ge_floor [of "q / 2 powi e"] have "0 < m" unfolding m_def by linarith
  then have v: "of_int m * (2::rat) powi e \<noteq> 0" by simp
  show ?thesis using q0(2) v unfolding rnd_def e Let_def m_def [symmetric] by auto
qed

lemma float_of_nat_nonzero: "0 < n \<Longrightarrow> float_of_nat n \<noteq> Fin 0"
  unfolding float_of_nat_def by (rule rnd_ge_one_nonzero) simp

lemma truediv_len: "0 < n \<Longrightarrow> truediv x (float_of_nat n) = Inr (fdiv x (float_of_nat n))"
  by (simp add: truediv_def float_of_nat_nonzero)

subsection \<open>The order of floats\<close>

lemma fle_refl: "x \<noteq> NaN \<Longrightarrow> fle x x"
  by (cases x) (simp_all add: fle_def)

lemma fle_trans: "fle x y \<Longrightarrow> fle y z \<Longrightarrow> fle x z"
  by (cases x; cases y; cases z) (simp_all add: fle_def)

lemma not_flt_fle: "x \<noteq> NaN \<Longrightarrow> y \<noteq> NaN \<Longrightarrow> \<not> flt x y \<Longrightarrow> fle y x"
  by (simp add: fle_def)

lemma flt_fle: "flt x y \<Longrightarrow> fle x y"
  by (cases x; cases y) (simp_all add: fle_def)

lemma py_max_from_mem: "py_max_from m xs \<in> set (m # xs)"
  by (induction xs arbitrary: m) auto

lemma py_min_from_mem: "py_min_from m xs \<in> set (m # xs)"
  by (induction xs arbitrary: m) auto

lemma py_max_from_ge_start: "NaN \<notin> set (m # xs) \<Longrightarrow> fle m (py_max_from m xs)"
proof (induction xs arbitrary: m)
  case Nil
  then show ?case by (simp add: fle_refl)
next
  case (Cons x xs)
  show ?case
  proof (cases "flt m x")
    case True
    have "fle x (py_max_from x xs)" using Cons.prems by (intro Cons.IH) auto
    with flt_fle [OF True] show ?thesis using True by (auto intro: fle_trans)
  next
    case False
    have "fle m (py_max_from m xs)" using Cons.prems by (intro Cons.IH) auto
    then show ?thesis using False by simp
  qed
qed

lemma py_max_from_upper:
  "NaN \<notin> set (m # xs) \<Longrightarrow> x \<in> set (m # xs) \<Longrightarrow> fle x (py_max_from m xs)"
proof (induction xs arbitrary: m)
  case Nil
  then show ?case by (simp add: fle_refl)
next
  case (Cons y ys)
  define m' where "m' = (if flt m y then y else m)"
  have nan: "NaN \<notin> set (m' # ys)" using Cons.prems(1) by (auto simp: m'_def)
  have r: "py_max_from m (y # ys) = py_max_from m' ys" by (simp add: m'_def)
  have m: "fle m m'" using Cons.prems(1) by (auto simp: m'_def flt_fle fle_refl)
  have y: "fle y m'" using Cons.prems(1) by (auto simp: m'_def not_flt_fle fle_refl)
  have top: "fle m' (py_max_from m' ys)" by (rule py_max_from_ge_start [OF nan])
  from Cons.prems(2) consider "x = m" | "x = y" | "x \<in> set ys" by auto
  then show ?case
  proof cases
    case 1
    then show ?thesis unfolding r using m top by (auto intro: fle_trans)
  next
    case 2
    then show ?thesis unfolding r using y top by (auto intro: fle_trans)
  next
    case 3
    then show ?thesis unfolding r using Cons.IH [OF nan] by simp
  qed
qed

lemma py_min_from_le_start: "NaN \<notin> set (m # xs) \<Longrightarrow> fle (py_min_from m xs) m"
proof (induction xs arbitrary: m)
  case Nil
  then show ?case by (simp add: fle_refl)
next
  case (Cons x xs)
  show ?case
  proof (cases "flt x m")
    case True
    have "fle (py_min_from x xs) x" using Cons.prems by (intro Cons.IH) auto
    with flt_fle [OF True] show ?thesis using True by (auto intro: fle_trans)
  next
    case False
    have "fle (py_min_from m xs) m" using Cons.prems by (intro Cons.IH) auto
    then show ?thesis using False by simp
  qed
qed

lemma py_min_from_lower:
  "NaN \<notin> set (m # xs) \<Longrightarrow> x \<in> set (m # xs) \<Longrightarrow> fle (py_min_from m xs) x"
proof (induction xs arbitrary: m)
  case Nil
  then show ?case by (simp add: fle_refl)
next
  case (Cons y ys)
  define m' where "m' = (if flt y m then y else m)"
  have nan: "NaN \<notin> set (m' # ys)" using Cons.prems(1) by (auto simp: m'_def)
  have r: "py_min_from m (y # ys) = py_min_from m' ys" by (simp add: m'_def)
  have m: "fle m' m" using Cons.prems(1) by (auto simp: m'_def flt_fle fle_refl)
  have y: "fle m' y" using Cons.prems(1) by (auto simp: m'_def not_flt_fle fle_refl)
  have bot: "fle (py_min_from m' ys) m'" by (rule py_min_from_le_start [OF nan])
  from Cons.prems(2) consider "x = m" | "x = y" | "x \<in> set ys" by auto
  then show ?case
  proof cases
    case 1
    then show ?thesis unfolding r using m bot by (auto intro: fle_trans)
  next
    case 2
    then show ?thesis unfolding r using y bot by (auto intro: fle_trans)
  next
    case 3
    then show ?thesis unfolding r using Cons.IH [OF nan] by simp
  qed
qed

subsection \<open>Three times 0.1\<close>

lemma fadd_zero_tenth: "fadd (Fin 0) tenth = tenth"
  unfolding tenth_def fadd.simps
  by (rule rnd_near [where e = "- 56" and m = 7205759403792794]) simp_all

lemma fadd_tenth_tenth: "fadd tenth tenth = fifth"
  unfolding tenth_def fifth_def fadd.simps
  by (rule rnd_near [where e = "- 55" and m = 7205759403792794]) simp_all

lemma fadd_fifth_tenth: "fadd fifth tenth = three_tenths_up"
  unfolding tenth_def fifth_def three_tenths_up_def fadd.simps
  by (rule rnd_tie [where e = "- 54" and m = 5404319552844595]) simp_all

lemma float_of_nat_3: "float_of_nat 3 = Fin 3"
  unfolding float_of_nat_def
  by (rule rnd_near [where e = "- 51" and m = 6755399441055744]) simp_all

lemma fdiv_three_tenths_up: "fdiv three_tenths_up (Fin 3) = tenth_up"
  unfolding three_tenths_up_def tenth_up_def fdiv.simps
  by (rule rnd_near [where e = "- 56" and m = 7205759403792795]) simp_all

lemma fsub_tenth_fifth: "fsub tenth fifth = neg_tenth"
  unfolding tenth_def fifth_def neg_tenth_def fsub_def fneg.simps fadd.simps
  by (rule rnd_near [where e = "- 56" and m = "- 7205759403792794"]) simp_all

lemma fadd_neg_tenth_tenth: "fadd neg_tenth tenth = Fin 0"
  by (simp add: neg_tenth_def tenth_def)

lemma fsub_fifth_three_tenths_up: "fsub fifth three_tenths_up = lost"
  unfolding fifth_def three_tenths_up_def lost_def fsub_def fneg.simps fadd.simps
  by (rule rnd_near [where e = "- 56" and m = "- 7205759403792796"]) simp_all

lemma fadd_lost_tenth: "fadd lost tenth = half_ulp"
  unfolding lost_def tenth_def half_ulp_def fadd.simps
  by (rule rnd_near [where e = "- 107" and m = "- 4503599627370496"]) simp_all

lemma fadd_zero_half_ulp: "fadd (Fin 0) half_ulp = half_ulp"
  unfolding half_ulp_def fadd.simps
  by (rule rnd_near [where e = "- 107" and m = "- 4503599627370496"]) simp_all

lemma fadd_three_tenths_up_half_ulp: "fadd three_tenths_up half_ulp = three_tenths_up"
  unfolding three_tenths_up_def half_ulp_def fadd.simps
  by (rule rnd_tie [where e = "- 54" and m = 5404319552844595]) simp_all

lemma py_sum_sequential_flat: "py_sum Sequential [tenth, tenth, tenth] = three_tenths_up"
  by (simp only: py_sum.simps foldl.simps fadd_zero_tenth fadd_tenth_tenth fadd_fifth_tenth)

lemma neumaier_step_1: "neumaier_step (tenth, Fin 0) tenth = (fifth, Fin 0)"
proof -
  have "fle (fabs tenth) (fabs tenth)" by (simp add: tenth_def fle_def)
  then show ?thesis
    by (simp only: neumaier_step.simps Let_def fadd_tenth_tenth fsub_tenth_fifth
        fadd_neg_tenth_tenth if_True) simp
qed

lemma neumaier_step_2: "neumaier_step (fifth, Fin 0) tenth = (three_tenths_up, half_ulp)"
proof -
  have "fle (fabs tenth) (fabs fifth)" by (simp add: tenth_def fifth_def fle_def)
  then show ?thesis
    by (simp only: neumaier_step.simps Let_def fadd_fifth_tenth fsub_fifth_three_tenths_up
        fadd_lost_tenth fadd_zero_half_ulp if_True)
qed

lemma py_sum_compensated_flat: "py_sum Compensated [tenth, tenth, tenth] = three_tenths_up"
proof -
  have "half_ulp \<noteq> Fin 0 \<and> is_finite half_ulp" by (simp add: half_ulp_def)
  then show ?thesis
    by (simp only: py_sum.simps foldl.simps fadd_zero_tenth neumaier_step_1 neumaier_step_2
        prod.case fadd_three_tenths_up_half_ulp if_cancel)
qed

lemma py_sum_flat: "py_sum impl [tenth, tenth, tenth] = three_tenths_up"
  by (cases impl) (simp_all only: py_sum_sequential_flat py_sum_compensated_flat)

section \<open>The statistics\<close>

text \<open>
  On a history of well-formed observations \<^verbatim>\<open>calculate_stats\<close> raises nothing, and
  each field has a closed form.
\<close>

lemma key_time_item_of [simp]: "key_time (item_of ob) = Inr (obs_time ob)"
  by (simp add: key_time_def item_of_def)

lemma float_rate_item_of [simp]: "float_rate (item_of ob) = Inr (obs_rate ob)"
  by (simp add: float_rate_def item_of_def)

lemma traverse_key_time_items [simp]:
  "traverse key_time (map item_of hist) = Inr (map obs_time hist)"
  by (induction hist) simp_all

lemma traverse_float_rate_items [simp]:
  "traverse float_rate (map item_of hist) = Inr (map obs_rate hist)"
  by (induction hist) simp_all

lemma insort_key_map:
  "insort_key k (h x) (map h ys) = map h (insort_key (\<lambda>y. k (h y)) x ys)"
  by (induction ys) simp_all

lemma sort_key_map: "sort_key k (map h xs) = map h (sort_key (\<lambda>y. k (h y)) xs)"
  by (induction xs) (simp_all add: insort_key_map)

lemma zip_map_map_same: "zip (map f xs) (map g xs) = map (\<lambda>x. (f x, g x)) xs"
  by (induction xs) simp_all

lemma py_sorted_desc_items:
  "py_sorted_desc (map item_of hist) = Inr (map item_of (desc_by_time hist))"
  by (simp add: py_sorted_desc_def desc_by_time_def zip_map_map_same sort_key_map)

lemma window_rates_items:
  "window_rates cutoff (map item_of xs) =
     Inr (map obs_rate (filter (\<lambda>ob. cutoff \<le> of_int (obs_time ob)) xs))"
  by (induction xs) simp_all

lemma sum_hours_items:
  "sum_hours impl now (map item_of (desc_by_time hist)) hours =
     Inr (py_sum impl (map obs_rate (desc_by_time (filter (in_window now hours) hist))))"
proof -
  have "(\<lambda>ob. now - of_int (hours * 60 * 60 * 1000) \<le> of_int (obs_time ob)) = in_window now hours"
    by (simp add: fun_eq_iff in_window_def)
  then show ?thesis
    by (simp add: sum_hours_def Let_def window_rates_items desc_by_time_def filter_sort)
qed

lemma desc_by_time_nonempty: "hist \<noteq> [] \<Longrightarrow> desc_by_time hist \<noteq> []"
  by (metis desc_by_time_def length_0_conv length_sort)

lemma calculate_stats_items:
  assumes "hist \<noteq> []"
  shows "calculate_stats env (map item_of hist) w =
     (Inr (Some \<lparr>rate8h = obs_rate (hd (desc_by_time hist)),
                 sum1d = window_sum (sum_impl env) (clock env (n_reads w)) hist 24,
                 sum3d = window_sum (sum_impl env) (clock env (n_reads w)) hist 72,
                 sum7d = window_sum (sum_impl env) (clock env (n_reads w)) hist 168,
                 sum30d = window_sum (sum_impl env) (clock env (n_reads w)) hist 720,
                 avg = fdiv (py_sum (sum_impl env) (map obs_rate hist)) (float_of_nat (length hist)),
                 max' = py_max_from (obs_rate (hd hist)) (map obs_rate (tl hist)),
                 min' = py_min_from (obs_rate (hd hist)) (map obs_rate (tl hist)),
                 count = length hist\<rparr>),
      map item_of hist, w @ [Now])"
proof -
  obtain d ds where s: "desc_by_time hist = d # ds"
    using desc_by_time_nonempty [OF assms] by (cases "desc_by_time hist") auto
  obtain h hs where h: "hist = h # hs" using assms by (cases hist) auto
  have r8: "(case map item_of (desc_by_time hist) of [] \<Rightarrow> Inr (Fin 0) | d # ds \<Rightarrow> float_rate d)
            = Inr (obs_rate (hd (desc_by_time hist)))"
    by (simp add: s)
  have mx: "py_max (map obs_rate hist) = Inr (py_max_from (obs_rate (hd hist)) (map obs_rate (tl hist)))"
    by (simp add: h)
  have mn: "py_min (map obs_rate hist) = Inr (py_min_from (obs_rate (hd hist)) (map obs_rate (tl hist)))"
    by (simp add: h)
  have dv: "truediv (py_sum (sum_impl env) (map obs_rate hist)) (float_of_nat (length hist))
            = Inr (fdiv (py_sum (sum_impl env) (map obs_rate hist)) (float_of_nat (length hist)))"
    using assms by (simp add: truediv_len)
  show ?thesis
    using assms
    by (simp add: calculate_stats_def read_clock_def py_sorted_desc_items sum_hours_items
        r8 mx mn dv window_sum_def)
qed

lemma desc_by_time_hd:
  assumes "hist \<noteq> []"
  shows "hd (desc_by_time hist) \<in> set hist"
    and "\<forall>ob\<in>set hist. obs_time ob \<le> obs_time (hd (desc_by_time hist))"
    and "hd (desc_by_time hist) = hd (filter (\<lambda>ob. obs_time ob = obs_time (hd (desc_by_time hist))) hist)"
proof -
  obtain d ds where s: "desc_by_time hist = d # ds"
    using desc_by_time_nonempty [OF assms] by (cases "desc_by_time hist") auto
  have set_eq: "set (d # ds) = set hist" unfolding s [symmetric] by (simp add: desc_by_time_def)
  then show "hd (desc_by_time hist) \<in> set hist" by (auto simp: s)
  have "sorted (map (\<lambda>ob. - obs_time ob) (d # ds))"
    unfolding s [symmetric] desc_by_time_def by (rule sorted_sort_key)
  then have "\<forall>ob\<in>set (d # ds). - obs_time d \<le> - obs_time ob" by auto
  then show "\<forall>ob\<in>set hist. obs_time ob \<le> obs_time (hd (desc_by_time hist))"
    unfolding set_eq by (simp add: s)
  have "filter (\<lambda>ob. - obs_time ob = - obs_time d) (d # ds) = filter (\<lambda>ob. - obs_time ob = - obs_time d) hist"
    unfolding s [symmetric] desc_by_time_def by (rule sort_key_stable)
  then have "d # filter (\<lambda>ob. obs_time ob = obs_time d) ds = filter (\<lambda>ob. obs_time ob = obs_time d) hist"
    by simp
  then show "hd (desc_by_time hist) = hd (filter (\<lambda>ob. obs_time ob = obs_time (hd (desc_by_time hist))) hist)"
    by (metis list.sel(1) s)
qed

lemma calculate_stats_data: "fst (snd (calculate_stats env data w)) = data"
  by (simp add: calculate_stats_def split: prod.splits)

lemma calculate_stats_Some:
  assumes "data \<noteq> []" and "fst (calculate_stats env data w) = Inr st"
  shows "st \<noteq> None"
  using assms by (auto simp: calculate_stats_def bindE_eq_Inr split: prod.splits)

lemma desc_by_time_flat: "desc_by_time flat_history = rev flat_history"
  by (simp add: desc_by_time_def flat_history_def)

lemma in_window_flat:
  "filter (in_window 1000 24) flat_history = flat_history"
  "filter (in_window 1000 72) flat_history = flat_history"
  "filter (in_window 1000 168) flat_history = flat_history"
  "filter (in_window 1000 720) flat_history = flat_history"
  by (simp_all add: in_window_def flat_history_def)

lemma calculate_stats_flat:
  "fst (calculate_stats (offline_env impl) (map item_of flat_history) []) = Inr (Some flat_stats)"
proof -
  have ne: "flat_history \<noteq> []" by (simp add: flat_history_def)
  have rates: "map obs_rate flat_history = [tenth, tenth, tenth]"
    "map obs_rate (rev flat_history) = [tenth, tenth, tenth]"
    by (simp_all add: flat_history_def)
  have w: "window_sum impl 1000 flat_history 24 = three_tenths_up"
    "window_sum impl 1000 flat_history 72 = three_tenths_up"
    "window_sum impl 1000 flat_history 168 = three_tenths_up"
    "window_sum impl 1000 flat_history 720 = three_tenths_up"
    by (simp_all only: window_sum_def in_window_flat desc_by_time_flat rates py_sum_flat)
  have a: "fdiv (py_sum impl (map obs_rate flat_history)) (float_of_nat (length flat_history)) = tenth_up"
  proof -
    have "length flat_history = 3" by (simp add: flat_history_def)
    then show ?thesis by (simp only: rates py_sum_flat float_of_nat_3 fdiv_three_tenths_up)
  qed
  have m: "py_max_from (obs_rate (hd flat_history)) (map obs_rate (tl flat_history)) = tenth"
    "py_min_from (obs_rate (hd flat_history)) (map obs_rate (tl flat_history)) = tenth"
    by (simp_all add: flat_history_def)
  have r: "obs_rate (hd (desc_by_time flat_history)) = tenth"
    by (simp add: desc_by_time_flat) (simp add: flat_history_def)
  have c: "clock (offline_env impl) (n_reads []) = 1000" "sum_impl (offline_env impl) = impl"
    by (simp_all add: offline_env_def)
  show ?thesis
    unfolding calculate_stats_items [OF ne] fst_conv c a m r
    by (simp add: w flat_stats_def) (simp add: flat_history_def)
qed

text \<open>
  \<^bold>\<open>Claim C5.\<close> For every non-empty history and reference time, each of the four
  windowed statistics (1d, 3d, 7d, 30d) is the sum of the rates of exactly those
  observations whose timestamp is at least the reference time minus the window (24 h,
  72 h, 168 h, 720 h), a sum and not an average.

  The reference time is the reading of the clock that \<^verbatim>\<open>calculate_stats\<close> takes. The
  summands are the rates of the observations of the history that pass the test
  \<open>in_window\<close>, all of them and each once (the filter of the history); the sum is
  Python's floating-point \<^verbatim>\<open>sum\<close>, taken in descending order of time.
\<close>

theorem calculate_stats_window_sums:
  assumes "hist \<noteq> []"
  shows "\<exists>st. fst (calculate_stats env (map item_of hist) w) = Inr (Some st)
    \<and> sum1d st = py_sum (sum_impl env)
        (map obs_rate (desc_by_time (filter (in_window (clock env (n_reads w)) 24) hist)))
    \<and> sum3d st = py_sum (sum_impl env)
        (map obs_rate (desc_by_time (filter (in_window (clock env (n_reads w)) 72) hist)))
    \<and> sum7d st = py_sum (sum_impl env)
        (map obs_rate (desc_by_time (filter (in_window (clock env (n_reads w)) 168) hist)))
    \<and> sum30d st = py_sum (sum_impl env)
        (map obs_rate (desc_by_time (filter (in_window (clock env (n_reads w)) 720) hist)))"
  by (simp add: calculate_stats_items [OF assms] window_sum_def)

text \<open>
  The theorem at three observations of rate 0.1 and a clock reading of 1000 ms: every
  window holds all three, and every sum is 0.30000000000000004.
\<close>

theorem calculate_stats_window_sums_witness:
  "flat_history \<noteq> []
   \<and> (\<exists>st. fst (calculate_stats (offline_env Sequential) (map item_of flat_history) []) = Inr (Some st)
         \<and> sum1d st = three_tenths_up \<and> sum3d st = three_tenths_up
         \<and> sum7d st = three_tenths_up \<and> sum30d st = three_tenths_up)"
proof -
  have ne: "flat_history \<noteq> []" by (simp add: flat_history_def)
  have c: "clock (offline_env Sequential) (n_reads []) = 1000"
    "sum_impl (offline_env Sequential) = Sequential" by (simp_all add: offline_env_def)
  have r: "map obs_rate (rev flat_history) = [tenth, tenth, tenth]"
    by (simp add: flat_history_def)
  from calculate_stats_window_sums [OF ne, of "offline_env Sequential" "[]"]
  show ?thesis
    unfolding c in_window_flat desc_by_time_flat r py_sum_flat using ne by blast
qed

text \<open>
  \<^bold>\<open>Claim C6, as the code has it.\<close> For every non-empty history the stats are not
  null; the count is the number of observations; the average is the floating-point
  quotient of the floating-point sum of all the rates by their number; the maximum and the
  minimum are rates of the history, and when no rate is NaN every rate of the whole
  history lies between them, so that the minimum is at most the maximum. That the average
  lies between the two is not claimed: both the sum and the quotient are rounded.
\<close>

theorem calculate_stats_full_window:
  assumes "hist \<noteq> []"
  shows "\<exists>st. fst (calculate_stats env (map item_of hist) w) = Inr (Some st)
    \<and> count st = length hist
    \<and> avg st = fdiv (py_sum (sum_impl env) (map obs_rate hist)) (float_of_nat (length hist))
    \<and> max' st \<in> obs_rate ` set hist
    \<and> min' st \<in> obs_rate ` set hist
    \<and> (NaN \<notin> obs_rate ` set hist \<longrightarrow>
         (\<forall>ob\<in>set hist. fle (min' st) (obs_rate ob) \<and> fle (obs_rate ob) (max' st))
         \<and> fle (min' st) (max' st))"
proof -
  let ?mx = "py_max_from (obs_rate (hd hist)) (map obs_rate (tl hist))"
  let ?mn = "py_min_from (obs_rate (hd hist)) (map obs_rate (tl hist))"
  have l: "set (obs_rate (hd hist) # map obs_rate (tl hist)) = obs_rate ` set hist"
    using assms by (cases hist) auto
  have mem: "?mx \<in> obs_rate ` set hist" "?mn \<in> obs_rate ` set hist"
    using py_max_from_mem [of "obs_rate (hd hist)" "map obs_rate (tl hist)"]
      py_min_from_mem [of "obs_rate (hd hist)" "map obs_rate (tl hist)"]
    unfolding l by simp_all
  have bounds: "\<forall>ob\<in>set hist. fle ?mn (obs_rate ob) \<and> fle (obs_rate ob) ?mx"
    if "NaN \<notin> obs_rate ` set hist"
  proof
    fix ob assume "ob \<in> set hist"
    then have x: "obs_rate ob \<in> set (obs_rate (hd hist) # map obs_rate (tl hist))"
      unfolding l by simp
    have n: "NaN \<notin> set (obs_rate (hd hist) # map obs_rate (tl hist))"
      unfolding l by (rule that)
    show "fle ?mn (obs_rate ob) \<and> fle (obs_rate ob) ?mx"
      using py_min_from_lower [OF n x] py_max_from_upper [OF n x] by simp
  qed
  have "fle ?mn ?mx" if "NaN \<notin> obs_rate ` set hist"
  proof -
    have "hd hist \<in> set hist" using assms by simp
    with bounds [OF that] show ?thesis by (blast intro: fle_trans)
  qed
  with bounds mem show ?thesis
    by (simp add: calculate_stats_items [OF assms])
qed

text \<open>
  The theorem at three observations of rate 0.1: count 3, minimum and maximum 0.1, average
  0.10000000000000002.
\<close>

theorem calculate_stats_full_window_witness:
  "flat_history \<noteq> []
   \<and> NaN \<notin> obs_rate ` set flat_history
   \<and> (\<exists>st. fst (calculate_stats (offline_env Sequential) (map item_of flat_history) []) = Inr (Some st)
         \<and> count st = 3 \<and> avg st = tenth_up \<and> max' st = tenth \<and> min' st = tenth
         \<and> fle (min' st) (max' st))"
proof -
  have ne: "flat_history \<noteq> []" by (simp add: flat_history_def)
  have nn: "NaN \<notin> obs_rate ` set flat_history" by (simp add: flat_history_def tenth_def)
  have s: "obs_rate ` set flat_history = {tenth}" by (simp add: flat_history_def)
  have c: "sum_impl (offline_env Sequential) = Sequential" by (simp add: offline_env_def)
  have r: "map obs_rate flat_history = [tenth, tenth, tenth]" by (simp add: flat_history_def)
  have l: "length flat_history = 3" by (simp add: flat_history_def)
  from calculate_stats_full_window [OF ne, of "offline_env Sequential" "[]"] nn
  obtain st where st: "fst (calculate_stats (offline_env Sequential) (map item_of flat_history) []) = Inr (Some st)"
    "count st = length flat_history"
    "avg st = fdiv (py_sum (sum_impl (offline_env Sequential)) (map obs_rate flat_history))
       (float_of_nat (length flat_history))"
    "max' st \<in> obs_rate ` set flat_history" "min' st \<in> obs_rate ` set flat_history"
    "fle (min' st) (max' st)" by blast
  have "avg st = tenth_up"
    unfolding st(3) c r l py_sum_flat float_of_nat_3 fdiv_three_tenths_up ..
  with st ne nn show ?thesis unfolding s l by blast
qed

text \<open>
  Claim C6 as the specification states it asks for \<open>min \<le> avg \<le> max\<close>. For three
  observations of rate 0.1 the sum is 0.30000000000000004, with the sequential and with
  the compensated \<^verbatim>\<open>sum\<close> alike, and its third is 0.10000000000000002, above the
  maximum 0.1.
\<close>

theorem calculate_stats_avg_above_max:
  "fst (calculate_stats (offline_env Sequential) (map item_of flat_history) []) = Inr (Some flat_stats)
   \<and> fst (calculate_stats (offline_env Compensated) (map item_of flat_history) []) = Inr (Some flat_stats)
   \<and> flt (max' flat_stats) (avg flat_stats)
   \<and> \<not> fle (avg flat_stats) (max' flat_stats)"
proof -
  have "flt tenth tenth_up" by (simp add: tenth_def tenth_up_def)
  then show ?thesis
    by (simp add: calculate_stats_flat flat_stats_def fle_def)
qed

text \<open>
  \<^bold>\<open>Claim C7.\<close> The summary is a function of its inputs: two calls with the same
  history and the same reference time give the same result.

  \<^verbatim>\<open>calculate_stats\<close> reads the reference time from the clock. Two calls on the same
  history, in any two environments and states of the world in which the clock gives the
  same reading and \<^verbatim>\<open>sum\<close> is the same, return the same value or raise the same
  exception; the call leaves the history as it was, and its only effect is the reading of
  the clock (none for the empty history).
\<close>

theorem calculate_stats_pure:
  assumes "clock env1 (n_reads w1) = clock env2 (n_reads w2)" and "sum_impl env1 = sum_impl env2"
  shows "fst (calculate_stats env1 data w1) = fst (calculate_stats env2 data w2)
    \<and> snd (calculate_stats env1 data w1) = (data, if data = [] then w1 else w1 @ [Now])"
  using assms by (cases "data = []") (simp_all add: calculate_stats_def read_clock_def cong: if_cong)

text \<open>
  The theorem at two environments with different catalogs and two different states of the
  world.
\<close>

theorem calculate_stats_pure_witness:
  "clock (offline_env Sequential) (n_reads []) = clock partial_env (n_reads [Sleep 1])
   \<and> sum_impl (offline_env Sequential) = sum_impl partial_env
   \<and> fst (calculate_stats (offline_env Sequential) (map item_of flat_history) [])
       = fst (calculate_stats partial_env (map item_of flat_history) [Sleep 1])
   \<and> snd (calculate_stats (offline_env Sequential) (map item_of flat_history) [])
       = (map item_of flat_history, [Now])"
proof -
  have a: "clock (offline_env Sequential) (n_reads []) = clock partial_env (n_reads [Sleep 1])"
    by (simp add: offline_env_def partial_env_def)
  have b: "sum_impl (offline_env Sequential) = sum_impl partial_env"
    by (simp add: offline_env_def partial_env_def)
  have ne: "map item_of flat_history \<noteq> []" by (simp add: flat_history_def)
  from calculate_stats_pure [OF a b, of "map item_of flat_history"] ne
  show ?thesis using a b by simp
qed

text \<open>
  \<^bold>\<open>Claim C9.\<close> For every non-empty history the current rate is the rate of the
  first element of a copy of the history sorted in descending order of time, that is, of
  an observation with the greatest timestamp; the caller's list is left as it was.

  The sort is stable, so among the observations with the greatest timestamp it is the
  first of the history.
\<close>

theorem calculate_stats_current_rate:
  assumes "hist \<noteq> []"
  shows "\<exists>st. fst (calculate_stats env (map item_of hist) w) = Inr (Some st)
    \<and> rate8h st = obs_rate (hd (desc_by_time hist))
    \<and> hd (desc_by_time hist) \<in> set hist
    \<and> (\<forall>ob\<in>set hist. obs_time ob \<le> obs_time (hd (desc_by_time hist)))
    \<and> hd (desc_by_time hist) =
        hd (filter (\<lambda>ob. obs_time ob = obs_time (hd (desc_by_time hist))) hist)
    \<and> fst (snd (calculate_stats env (map item_of hist) w)) = map item_of hist"
  using desc_by_time_hd [OF assms] by (simp add: calculate_stats_items [OF assms])

text \<open>
  The theorem at three observations of the times 0, 1 and 2: the current rate is that of
  the observation of time 2.
\<close>

theorem calculate_stats_current_rate_witness:
  "flat_history \<noteq> []
   \<and> (\<exists>st. fst (calculate_stats (offline_env Sequential) (map item_of flat_history) []) = Inr (Some st)
         \<and> rate8h st = tenth
         \<and> obs_time (hd (desc_by_time flat_history)) = 2)
   \<and> fst (snd (calculate_stats (offline_env Sequential) (map item_of flat_history) []))
       = map item_of flat_history"
proof -
  have ne: "flat_history \<noteq> []" by (simp add: flat_history_def)
  have h: "hd (desc_by_time flat_history) = \<lparr>obs_time = 2, obs_rate = tenth\<rparr>"
    by (simp add: desc_by_time_flat) (simp add: flat_history_def)
  from calculate_stats_current_rate [OF ne, of "offline_env Sequential" "[]"]
  show ?thesis unfolding h using ne by auto
qed

section \<open>The pages of a history\<close>

lemma traverse_key_time_total:
  "\<forall>d\<in>set p. time d \<noteq> None \<Longrightarrow> \<exists>ts. traverse key_time p = Inr ts \<and> length ts = length p"
  by (induction p) (auto simp: key_time_def)

lemma full_page_max_time: "full_page p \<Longrightarrow> \<exists>t. max_time p = Inr t"
proof -
  assume f: "full_page p"
  then obtain ts where ts: "traverse key_time p = Inr ts" "length ts = length p"
    using traverse_key_time_total [of p] by (auto simp: full_page_def)
  from f ts(2) have "ts \<noteq> []" by (auto simp: full_page_def)
  then show ?thesis by (cases ts) (simp_all add: max_time_def ts(1))
qed

lemma retry_loop_success:
  assumes "net env (n_posts w) req = Http 200 (Items p)" and "500 \<le> length p"
    and "max_time p = Inr t"
  shows "retry_loop env req (r # rs) all_data w = (Next (all_data @ p) (t + 1), w @ [Post req])"
proof -
  have "p \<noteq> []" using assms(2) by auto
  then show ?thesis using assms by (simp add: post_def try_page_def)
qed

lemma serves_Cons:
  "serves env n (p # ps) \<longleftrightarrow> (\<forall>req. net env n req = Http 200 (Items p)) \<and> serves env (Suc n) ps"
proof
  assume s: "serves env n (p # ps)"
  have "\<forall>req. net env n req = Http 200 (Items p)" using s by (force simp: serves_def)
  moreover have "serves env (Suc n) ps"
    unfolding serves_def
  proof (intro allI impI)
    fix i req assume "i < length ps"
    then have "Suc i < length (p # ps)" by simp
    with s have "net env (n + Suc i) req = Http 200 (Items ((p # ps) ! Suc i))"
      unfolding serves_def by blast
    then show "net env (Suc n + i) req = Http 200 (Items (ps ! i))" by simp
  qed
  ultimately show "(\<forall>req. net env n req = Http 200 (Items p)) \<and> serves env (Suc n) ps" ..
next
  assume a: "(\<forall>req. net env n req = Http 200 (Items p)) \<and> serves env (Suc n) ps"
  show "serves env n (p # ps)"
    unfolding serves_def
  proof (intro allI impI)
    fix i req assume "i < length (p # ps)"
    then show "net env (n + i) req = Http 200 (Items ((p # ps) ! i))"
      using a by (cases i) (auto simp: serves_def)
  qed
qed

lemma page_loop_pages:
  assumes "serves env (n_posts w) ps" and "\<forall>p\<in>set ps. full_page p" and "length ps \<le> length its"
  shows "\<exists>reqs cur'. length reqs = length ps \<and>
     page_loop env c e its cur all_data w =
       page_loop env c e (drop (length ps) its) cur' (all_data @ concat ps) (w @ map Post reqs)"
  using assms
proof (induction ps arbitrary: its cur all_data w)
  case Nil
  show ?case by (rule exI [of _ "[]"], rule exI [of _ cur]) simp
next
  case (Cons p ps)
  from Cons.prems(3) obtain it its' where its: "its = it # its'" by (cases its) auto
  from Cons.prems(1) have n: "\<forall>req. net env (n_posts w) req = Http 200 (Items p)"
    and s: "serves env (Suc (n_posts w)) ps" by (simp_all add: serves_Cons)
  from Cons.prems(2) have fp: "full_page p" and fps: "\<forall>p\<in>set ps. full_page p" by simp_all
  from full_page_max_time [OF fp] obtain t where t: "max_time p = Inr t" ..
  let ?req = "payload c cur e"
  have mr: "[0..<max_retries] = 0 # [1..<max_retries]" by (simp add: max_retries_def upt_rec)
  have step: "retry_loop env ?req [0..<max_retries] all_data w = (Next (all_data @ p) (t + 1), w @ [Post ?req])"
    unfolding mr using n fp t by (intro retry_loop_success) (auto simp: full_page_def)
  have s': "serves env (n_posts (w @ [Post ?req])) ps" using s by simp
  from Cons.prems(3) its have len: "length ps \<le> length its'" by simp
  from Cons.IH [OF s' fps len, of "t + 1" "all_data @ p"]
  obtain reqs cur' where r: "length reqs = length ps"
    "page_loop env c e its' (t + 1) (all_data @ p) (w @ [Post ?req]) =
       page_loop env c e (drop (length ps) its') cur' ((all_data @ p) @ concat ps)
         ((w @ [Post ?req]) @ map Post reqs)" by blast
  show ?case
    by (rule exI [of _ "?req # reqs"], rule exI [of _ cur']) (simp add: its step r)
qed


lemma retry_loop_failed:
  assumes "\<forall>k<3. net env (n_posts w + k) req = Failed"
  shows "retry_loop env req [0..<max_retries] all_data w =
     (Returned all_data, w @ [Post req, Sleep 1, Post req, Sleep 1, Post req])"
proof -
  from assms have
    "net env (n_posts w) req = Failed" "net env (Suc (n_posts w)) req = Failed"
    "net env (Suc (Suc (n_posts w))) req = Failed"
    by (metis (no_types, opaque_lifting) Suc_eq_plus1 add.right_neutral add_Suc_right numeral_2_eq_2
        numeral_3_eq_3 lessI less_SucI)+
  then show ?thesis
    by (simp add: max_retries_def upt_rec post_def try_page_def sleep_def)
qed


lemma fetch_after_pages:
  assumes "serves env (n_posts w) ps" and "\<forall>p\<in>set ps. full_page p" and "length ps < max_iterations"
  shows "\<exists>reqs cur' it rest. length reqs = length ps \<and>
     fetch_funding_history env c start_time e w =
       page_loop env c e (it # rest) cur' (concat ps) (w @ map Post reqs)"
proof -
  have len: "length ps \<le> length [0..<max_iterations]" using assms(3) by simp
  from page_loop_pages [OF assms(1,2) len, of c e start_time "[]"]
  obtain reqs cur' where r: "length reqs = length ps"
    "page_loop env c e [0..<max_iterations] start_time [] w =
       page_loop env c e (drop (length ps) [0..<max_iterations]) cur' ([] @ concat ps)
         (w @ map Post reqs)" by blast
  have "drop (length ps) [0..<max_iterations] \<noteq> []" using assms(3) by simp
  then obtain it rest where d: "drop (length ps) [0..<max_iterations] = it # rest"
    by (cases "drop (length ps) [0..<max_iterations]") auto
  show ?thesis
    using r unfolding d fetch_funding_history_def by auto
qed

lemma retry_loop_trace:
  "\<exists>tr n. snd (retry_loop env req rs all_data w) = w @ tr \<and> posts_of tr = replicate n req
     \<and> n \<le> length rs
     \<and> sum_list (sleeps_of tr) \<le> sum_list (map (\<lambda>r. of_nat ((r + 1) * 2)) rs)"
proof (induction rs arbitrary: all_data w)
  case Nil
  show ?case by (rule exI [of _ "[]"], rule exI [of _ 0]) simp
next
  case (Cons r rs)
  let ?w1 = "w @ [Post req]"
  let ?resp = "net env (n_posts w) req"
  have nonneg: "(0::rat) \<le> sum_list (map (\<lambda>r. of_nat ((r + 1) * 2)) rs)"
    by (rule sum_list_nonneg) auto
  have stop: "\<exists>tr n. ?w1 = w @ tr \<and> posts_of tr = replicate n req \<and> n \<le> length (r # rs)
     \<and> sum_list (sleeps_of tr) \<le> sum_list (map (\<lambda>r. of_nat ((r + 1) * 2)) (r # rs))"
    using nonneg by (intro exI [of _ "[Post req]"] exI [of _ 1]) (simp add: add_nonneg_nonneg)
  have go: "\<exists>tr n. snd (retry_loop env req rs xs (sleep d ?w1)) = w @ tr
     \<and> posts_of tr = replicate n req \<and> n \<le> length (r # rs)
     \<and> sum_list (sleeps_of tr) \<le> sum_list (map (\<lambda>r. of_nat ((r + 1) * 2)) (r # rs))"
    if "d \<le> of_nat ((r + 1) * 2)" for d xs
  proof -
    from Cons.IH [of xs "sleep d ?w1"]
    obtain tr n where t: "snd (retry_loop env req rs xs (sleep d ?w1)) = sleep d ?w1 @ tr"
      "posts_of tr = replicate n req" "n \<le> length rs"
      "sum_list (sleeps_of tr) \<le> sum_list (map (\<lambda>r. of_nat ((r + 1) * 2)) rs)" by blast
    show ?thesis
      using t that
      by (intro exI [of _ "[Post req, Sleep d] @ tr"] exI [of _ "Suc n"]) (simp add: sleep_def)
  qed
  have one: "(1::rat) \<le> of_nat ((r + 1) * 2)" by (simp add: of_nat_add)
  show ?case
  proof (cases "try_page ?resp all_data")
    case RateLimited
    then show ?thesis using go [of "of_nat ((r + 1) * 2)" all_data] by (simp add: post_def)
  next
    case (Return xs)
    then show ?thesis using stop by (simp add: post_def)
  next
    case (Break xs c)
    then show ?thesis using stop by (simp add: post_def)
  next
    case (Raised xs)
    show ?thesis
    proof (cases "r = max_retries - 1")
      case True
      with Raised have "retry_loop env req (r # rs) all_data w = (Returned xs, ?w1)"
        by (simp add: post_def)
      then show ?thesis using stop by simp
    next
      case False
      with Raised have "retry_loop env req (r # rs) all_data w =
        retry_loop env req rs xs (sleep 1 ?w1)" by (simp add: post_def)
      then show ?thesis using go [OF one, of xs] by simp
    qed
  qed
qed

lemma page_loop_trace:
  "\<exists>tr. snd (page_loop env c e its cur all_data w) = w @ tr
     \<and> length (posts_of tr) \<le> 3 * length its
     \<and> card (set (posts_of tr)) \<le> length its
     \<and> sum_list (sleeps_of tr) \<le> 12 * of_nat (length its)"
proof (induction its arbitrary: cur all_data w)
  case Nil
  show ?case by (rule exI [of _ "[]"]) simp
next
  case (Cons it its)
  let ?req = "payload c cur e"
  have b: "sum_list (map (\<lambda>r. of_nat ((r + 1) * 2)) [0..<max_retries]) = (12::rat)"
    by (simp add: max_retries_def upt_rec)
  from retry_loop_trace [of env ?req "[0..<max_retries]" all_data w]
  obtain tr1 n where t1: "snd (retry_loop env ?req [0..<max_retries] all_data w) = w @ tr1"
    "posts_of tr1 = replicate n ?req" "n \<le> 3" "sum_list (sleeps_of tr1) \<le> 12"
    unfolding b by (auto simp: max_retries_def)
  have c1: "card (set (replicate n ?req)) \<le> 1" by (simp add: set_replicate_conv_if)
  obtain fl w' where rl: "retry_loop env ?req [0..<max_retries] all_data w = (fl, w')"
    by (cases "retry_loop env ?req [0..<max_retries] all_data w") auto
  with t1 have w': "w' = w @ tr1" by simp
  show ?case
  proof (cases fl)
    case (Returned xs)
    then show ?thesis
      using t1 c1 by (intro exI [of _ tr1]) (simp add: rl w')
  next
    case (Next xs cur')
    from Cons.IH [of cur' xs w']
    obtain tr2 where t2: "snd (page_loop env c e its cur' xs w') = w' @ tr2"
      "length (posts_of tr2) \<le> 3 * length its" "card (set (posts_of tr2)) \<le> length its"
      "sum_list (sleeps_of tr2) \<le> 12 * of_nat (length its)" by blast
    have "card (set (replicate n ?req) \<union> set (posts_of tr2)) \<le> 1 + length its"
      using card_Un_le [of "set (replicate n ?req)" "set (posts_of tr2)"] c1 t2(3) by linarith
    then show ?thesis
      using t1 t2 Next
      by (intro exI [of _ "tr1 @ tr2"]) (simp add: rl w' algebra_simps)
  qed
qed

lemma full_page_sample: "full_page sample_page"
  by (simp add: full_page_def sample_page_def sample_item_def)

lemma serves_scripted: "n \<le> m \<Longrightarrow> serves (scripted_env m after) 0 (replicate n sample_page)"
  by (simp add: serves_def scripted_env_def)



text \<open>
  \<^bold>\<open>Claim C3.\<close> For every symbol and every upstream \<^verbatim>\<open>fetch_funding_history\<close>
  fetches at most 20 pages and ends, also when every page has 500 records; at the cap it
  returns what it has.

  The function is total. In every environment its requests are at most 20 different
  ones (a page is one cursor, asked for up to three times), at most 60 in all, and it
  sleeps at most 240 seconds. When the upstream serves 20 full pages it makes exactly 20
  requests and returns the 20 pages.
\<close>

theorem fetch_funding_history_bounded:
  "(\<exists>tr. snd (fetch_funding_history env c start_time e w) = w @ tr
      \<and> length (posts_of tr) \<le> 60
      \<and> card (set (posts_of tr)) \<le> 20
      \<and> sum_list (sleeps_of tr) \<le> 240)
   \<and> (serves env (n_posts w) ps \<and> (\<forall>p\<in>set ps. full_page p) \<and> length ps = max_iterations \<longrightarrow>
        (\<exists>reqs. length reqs = 20 \<and>
           fetch_funding_history env c start_time e w = (concat ps, w @ map Post reqs)))"
proof
  from page_loop_trace [of env c e "[0..<max_iterations]" start_time "[]" w]
  show "\<exists>tr. snd (fetch_funding_history env c start_time e w) = w @ tr
      \<and> length (posts_of tr) \<le> 60
      \<and> card (set (posts_of tr)) \<le> 20
      \<and> sum_list (sleeps_of tr) \<le> 240"
    by (simp add: fetch_funding_history_def max_iterations_def)
next
  show "serves env (n_posts w) ps \<and> (\<forall>p\<in>set ps. full_page p) \<and> length ps = max_iterations \<longrightarrow>
        (\<exists>reqs. length reqs = 20 \<and>
           fetch_funding_history env c start_time e w = (concat ps, w @ map Post reqs))"
  proof
    assume a: "serves env (n_posts w) ps \<and> (\<forall>p\<in>set ps. full_page p) \<and> length ps = max_iterations"
    then have len: "length ps \<le> length [0..<max_iterations]" by simp
    from page_loop_pages [OF _ _ len, of env w c e start_time "[]"] a
    obtain reqs cur' where r: "length reqs = length ps"
      "page_loop env c e [0..<max_iterations] start_time [] w =
         page_loop env c e (drop (length ps) [0..<max_iterations]) cur' ([] @ concat ps)
           (w @ map Post reqs)" by blast
    have "drop (length ps) [0..<max_iterations] = []" using a by simp
    with r a show "\<exists>reqs. length reqs = 20 \<and>
           fetch_funding_history env c start_time e w = (concat ps, w @ map Post reqs)"
      by (intro exI [of _ reqs]) (simp add: fetch_funding_history_def max_iterations_def)
  qed
qed

text \<open>
  The theorem at an upstream that serves 20 pages of 500 observations.
\<close>

theorem fetch_funding_history_bounded_witness:
  "serves (scripted_env 20 Failed) (n_posts []) (replicate 20 sample_page)
   \<and> full_page sample_page
   \<and> length (replicate 20 sample_page) = max_iterations
   \<and> (\<exists>tr. snd (fetch_funding_history (scripted_env 20 Failed) ''BTC'' 0 None []) = tr
         \<and> length (posts_of tr) \<le> 60 \<and> card (set (posts_of tr)) \<le> 20
         \<and> sum_list (sleeps_of tr) \<le> 240)
   \<and> (\<exists>reqs. length reqs = 20 \<and>
         fetch_funding_history (scripted_env 20 Failed) ''BTC'' 0 None [] =
           (concat (replicate 20 sample_page), map Post reqs))"
proof -
  have s: "serves (scripted_env 20 Failed) (n_posts []) (replicate 20 sample_page)"
    using serves_scripted [of 20 20 Failed] by simp
  have f: "\<forall>p\<in>set (replicate 20 sample_page). full_page p" by (simp add: full_page_sample)
  have l: "length (replicate 20 sample_page) = max_iterations" by (simp add: max_iterations_def)
  note t = fetch_funding_history_bounded [of "scripted_env 20 Failed" "''BTC''" 0 None "[]"
      "replicate 20 sample_page"]
  from t have 1: "\<exists>tr. snd (fetch_funding_history (scripted_env 20 Failed) ''BTC'' 0 None []) = tr
         \<and> length (posts_of tr) \<le> 60 \<and> card (set (posts_of tr)) \<le> 20
         \<and> sum_list (sleeps_of tr) \<le> 240" by simp
  from t s f l have 2: "\<exists>reqs. length reqs = 20 \<and>
         fetch_funding_history (scripted_env 20 Failed) ''BTC'' 0 None [] =
           (concat (replicate 20 sample_page), map Post reqs)" by simp
  show ?thesis using s full_page_sample l 1 2 by blast
qed

text \<open>
  \<^bold>\<open>Claim C4.\<close> When the first \<open>N - 1\<close> pages succeed and the \<open>N\<close>-th fails by a
  transport error on each of its three attempts, the history returned is the
  concatenation of the \<open>N - 1\<close> pages, in order, with nothing lost and nothing repeated.

  \<open>ps\<close> are the \<open>N - 1\<close> pages; a page succeeds when it has at least 500 elements,
  each with a timestamp (a shorter page ends the fetch, and no \<open>N\<close>-th page is asked
  for).
\<close>

theorem fetch_funding_history_partial_failure:
  assumes "serves env (n_posts w) ps" and "\<forall>p\<in>set ps. full_page p" and "length ps < max_iterations"
    and "\<forall>k<3. \<forall>req. net env (n_posts w + length ps + k) req = Failed"
  shows "\<exists>reqs r. length reqs = length ps \<and>
     fetch_funding_history env c start_time e w =
       (concat ps, w @ map Post reqs @ [Post r, Sleep 1, Post r, Sleep 1, Post r])"
proof -
  from fetch_after_pages [OF assms(1,2,3), of c start_time e]
  obtain reqs cur' it rest where r: "length reqs = length ps"
    "fetch_funding_history env c start_time e w =
       page_loop env c e (it # rest) cur' (concat ps) (w @ map Post reqs)" by blast
  let ?req = "payload c cur' e"
  let ?w = "w @ map Post reqs"
  have np: "n_posts ?w = n_posts w + length ps" using r(1) by simp
  from assms(4) have "\<forall>k<3. net env (n_posts ?w + k) ?req = Failed" unfolding np by blast
  from retry_loop_failed [OF this]
  have "page_loop env c e (it # rest) cur' (concat ps) ?w =
    (concat ps, ?w @ [Post ?req, Sleep 1, Post ?req, Sleep 1, Post ?req])" by simp
  with r show ?thesis by (intro exI [of _ reqs] exI [of _ ?req]) simp
qed

text \<open>
  The theorem at an upstream that serves one page of 500 observations and then fails.
\<close>

theorem fetch_funding_history_partial_failure_witness:
  "serves (scripted_env 1 Failed) (n_posts []) [sample_page]
   \<and> full_page sample_page
   \<and> length [sample_page] < max_iterations
   \<and> net (scripted_env 1 Failed) 1 (payload ''BTC'' 1 None) = Failed
   \<and> (\<exists>reqs r. length reqs = 1 \<and>
         fetch_funding_history (scripted_env 1 Failed) ''BTC'' 0 None [] =
           (sample_page, map Post reqs @ [Post r, Sleep 1, Post r, Sleep 1, Post r]))"
proof -
  have s: "serves (scripted_env 1 Failed) (n_posts []) [sample_page]"
    using serves_scripted [of 1 1 Failed] by simp
  have f: "\<forall>p\<in>set [sample_page]. full_page p" by (simp add: full_page_sample)
  have l: "length [sample_page] < max_iterations" by (simp add: max_iterations_def)
  have a: "\<forall>k<3. \<forall>req. net (scripted_env 1 Failed) (n_posts [] + length [sample_page] + k) req = Failed"
    by (simp add: scripted_env_def)
  have n: "net (scripted_env 1 Failed) 1 (payload ''BTC'' 1 None) = Failed"
    by (simp add: scripted_env_def)
  from fetch_funding_history_partial_failure [OF s f l a, of "''BTC''" 0 None]
  have "\<exists>reqs r. length reqs = 1 \<and>
         fetch_funding_history (scripted_env 1 Failed) ''BTC'' 0 None [] =
           (sample_page, map Post reqs @ [Post r, Sleep 1, Post r, Sleep 1, Post r])"
    by simp
  then show ?thesis using s full_page_sample l n by blast
qed

section \<open>The record of a symbol\<close>

lemma calculate_stats_flat_at:
  assumes c: "clock env (n_reads w) = 1000" "sum_impl env = impl"
  shows "fst (calculate_stats env (map item_of flat_history) w) = Inr (Some flat_stats)"
proof -
  have ne: "flat_history \<noteq> []" by (simp add: flat_history_def)
  have rates: "map obs_rate flat_history = [tenth, tenth, tenth]"
    "map obs_rate (rev flat_history) = [tenth, tenth, tenth]"
    by (simp_all add: flat_history_def)
  have w: "window_sum impl 1000 flat_history 24 = three_tenths_up"
    "window_sum impl 1000 flat_history 72 = three_tenths_up"
    "window_sum impl 1000 flat_history 168 = three_tenths_up"
    "window_sum impl 1000 flat_history 720 = three_tenths_up"
    by (simp_all only: window_sum_def in_window_flat desc_by_time_flat rates py_sum_flat)
  have a: "fdiv (py_sum impl (map obs_rate flat_history)) (float_of_nat (length flat_history)) = tenth_up"
  proof -
    have "length flat_history = 3" by (simp add: flat_history_def)
    then show ?thesis by (simp only: rates py_sum_flat float_of_nat_3 fdiv_three_tenths_up)
  qed
  have m: "py_max_from (obs_rate (hd flat_history)) (map obs_rate (tl flat_history)) = tenth"
    "py_min_from (obs_rate (hd flat_history)) (map obs_rate (tl flat_history)) = tenth"
    by (simp_all add: flat_history_def)
  have r: "obs_rate (hd (desc_by_time flat_history)) = tenth"
    by (simp add: desc_by_time_flat) (simp add: flat_history_def)
  show ?thesis
    unfolding calculate_stats_items [OF ne] fst_conv c a m r
    by (simp add: w flat_stats_def) (simp add: flat_history_def)
qed

lemma fetch_coin_data_cases:
  assumes "fetch_funding_history env c start_time (Some end_time) w = (h, wh)"
  shows "fetch_coin_data env c start_time end_time w =
     (if h = [] then ((c, \<lparr>history = [], stats = None\<rparr>), wh)
      else case fst (calculate_stats env h wh) of
             Inl e \<Rightarrow> ((c, \<lparr>history = [], stats = None\<rparr>), snd (snd (calculate_stats env h wh)))
           | Inr s \<Rightarrow> ((c, \<lparr>history = h, stats = s\<rparr>), snd (snd (calculate_stats env h wh))))"
proof -
  obtain r h' w2 where cs: "calculate_stats env h wh = (r, h', w2)"
    by (cases "calculate_stats env h wh") auto
  have h': "h' = h" using calculate_stats_data [of env h wh] cs by simp
  show ?thesis
    by (cases r) (simp_all add: fetch_coin_data_def assms cs h')
qed


text \<open>
  \<^bold>\<open>Claim C10.\<close> For every symbol and window \<^verbatim>\<open>fetch_coin_data\<close> never raises and
  returns the symbol with a record whose stats are null exactly when its history is empty:
  a non-empty history comes with stats, and an empty history or an exception inside gives
  the empty history with null stats.

  The function returns a pair in every environment. With \<open>h\<close> the history that
  \<^verbatim>\<open>fetch_funding_history\<close> returns: if \<open>h\<close> is empty the record is the empty one; if
  \<^verbatim>\<open>calculate_stats\<close> raises on \<open>h\<close> the record is the empty one; and if it returns, the
  record holds \<open>h\<close> itself and the stats returned, which are not null.
\<close>

theorem fetch_coin_data_total:
  assumes "fetch_funding_history env c start_time (Some end_time) w = (h, wh)"
  shows "\<exists>d w'. fetch_coin_data env c start_time end_time w = ((c, d), w')
     \<and> (stats d = None \<longleftrightarrow> history d = [])
     \<and> (h = [] \<longrightarrow> d = \<lparr>history = [], stats = None\<rparr> \<and> w' = wh)
     \<and> (\<forall>e. h \<noteq> [] \<and> fst (calculate_stats env h wh) = Inl e \<longrightarrow>
           d = \<lparr>history = [], stats = None\<rparr> \<and> w' = snd (snd (calculate_stats env h wh)))
     \<and> (\<forall>s. h \<noteq> [] \<and> fst (calculate_stats env h wh) = Inr s \<longrightarrow>
           s \<noteq> None \<and> d = \<lparr>history = h, stats = s\<rparr> \<and> w' = snd (snd (calculate_stats env h wh)))"
proof (cases "h = []")
  case True
  then show ?thesis unfolding fetch_coin_data_cases [OF assms] by simp
next
  case False
  show ?thesis
  proof (cases "fst (calculate_stats env h wh)")
    case (Inl e)
    then show ?thesis unfolding fetch_coin_data_cases [OF assms] using False by simp
  next
    case (Inr s)
    from calculate_stats_Some [OF False Inr] have "s \<noteq> None" .
    then show ?thesis unfolding fetch_coin_data_cases [OF assms] using False Inr by simp
  qed
qed

lemma coin_payload [simp]: "coin (payload c s e) = c"
  by (simp add: payload_def)

lemma fetch_listing_failed:
  "c \<noteq> ''xyz:TSLA'' \<Longrightarrow> fst (fetch_funding_history listing_env c s e w) = []"
  by (simp add: fetch_funding_history_def max_iterations_def max_retries_def upt_rec
      post_def try_page_def listing_env_def sleep_def)

lemma fetch_listing_flat:
  "fst (fetch_funding_history listing_env ''xyz:TSLA'' s e w) = map item_of flat_history"
  by (simp add: fetch_funding_history_def max_iterations_def max_retries_def upt_rec
      post_def try_page_def listing_env_def flat_history_def)

lemma calculate_stats_listing:
  "fst (calculate_stats listing_env (map item_of flat_history) w) = Inr (Some flat_stats)"
  by (rule calculate_stats_flat_at [where impl = Sequential]) (simp_all add: listing_env_def)

lemma fetch_bad_rate:
  "fetch_funding_history bad_rate_env c s e w =
     ([\<lparr>time = Some 5, fundingRate = None\<rparr>], w @ [Post (payload c s e)])"
  by (simp add: fetch_funding_history_def max_iterations_def max_retries_def upt_rec
      post_def try_page_def bad_rate_env_def)

lemma calculate_stats_bad_rate:
  "fst (calculate_stats env [\<lparr>time = Some 5, fundingRate = None\<rparr>] w) = Inl ValueError"
  by (simp add: calculate_stats_def read_clock_def py_sorted_desc_def key_time_def float_rate_def)

text \<open>
  The theorem at an upstream that fails for one symbol and answers three observations for
  another, and at an upstream whose only observation has a rate that \<^verbatim>\<open>float\<close> cannot
  convert: nothing fetched gives the empty record, the three observations come back with
  their stats, and the summary that raises gives the empty record.
\<close>

theorem fetch_coin_data_total_witness:
  "fst (fetch_coin_data listing_env ''xyz:GOLD'' 0 1 []) = (''xyz:GOLD'', \<lparr>history = [], stats = None\<rparr>)
   \<and> fst (fetch_coin_data listing_env ''xyz:TSLA'' 0 1 [])
       = (''xyz:TSLA'', \<lparr>history = map item_of flat_history, stats = Some flat_stats\<rparr>)
   \<and> fst (fetch_funding_history bad_rate_env ''BTC'' 0 (Some 1) []) \<noteq> []
   \<and> fst (fetch_coin_data bad_rate_env ''BTC'' 0 1 []) = (''BTC'', \<lparr>history = [], stats = None\<rparr>)"
proof -
  obtain w1 where f1: "fetch_funding_history listing_env ''xyz:GOLD'' 0 (Some 1) [] = ([], w1)"
    using fetch_listing_failed [of "''xyz:GOLD''" 0 "Some 1" "[]"]
    by (cases "fetch_funding_history listing_env ''xyz:GOLD'' 0 (Some 1) []") simp
  obtain w2 where f2: "fetch_funding_history listing_env ''xyz:TSLA'' 0 (Some 1) [] = (map item_of flat_history, w2)"
    using fetch_listing_flat [of 0 "Some 1" "[]"]
    by (cases "fetch_funding_history listing_env ''xyz:TSLA'' 0 (Some 1) []") simp
  have ne: "map item_of flat_history \<noteq> []" by (simp add: flat_history_def)
  from fetch_coin_data_total [OF f1]
  have 1: "fst (fetch_coin_data listing_env ''xyz:GOLD'' 0 1 []) = (''xyz:GOLD'', \<lparr>history = [], stats = None\<rparr>)"
    by auto
  from fetch_coin_data_total [OF f2] ne calculate_stats_listing [of w2]
  have 2: "fst (fetch_coin_data listing_env ''xyz:TSLA'' 0 1 [])
       = (''xyz:TSLA'', \<lparr>history = map item_of flat_history, stats = Some flat_stats\<rparr>)"
    by auto
  from fetch_coin_data_total [OF fetch_bad_rate [of "''BTC''" 0 "Some 1" "[]"]]
    calculate_stats_bad_rate [of bad_rate_env "[Post (payload ''BTC'' 0 (Some 1))]"]
  have 3: "fst (fetch_coin_data bad_rate_env ''BTC'' 0 1 []) = (''BTC'', \<lparr>history = [], stats = None\<rparr>)"
    by auto
  show ?thesis using 1 2 3 by (simp add: fetch_bad_rate)
qed

section \<open>The loop over the symbols\<close>













section \<open>The catalog\<close>







end
